theory Spec2Isabelle
  imports Main "HOL-Library.Word"
begin

unbundle bit_operations_syntax

section \<open>The eUSB2 I2C repeater driver (repeater-i2c-eusb2.c)\<close>

text \<open>
  The driver talks to three outside parties: the regulator framework (two supplies,
  \<open>vdd18\<close> and \<open>vdd3\<close>), the register map of the chip (\<open>regmap_read\<close>,
  \<open>regmap_write\<close>) and the scheduler (\<open>usleep_range\<close>). None of them is part of
  the file, so each call to them is recorded in an event log together with what the
  outside answered. The answers come from an environment \<open>env\<close>: the call logged at
  position \<open>n\<close> of the log is answered by \<open>env n\<close>, a return code and (for a
  register read) the value read. Every sequence of answers is some \<open>env\<close>.
\<close>

subsection \<open>Constants\<close>

type_synonym u8 = "8 word"
type_synonym u32 = "32 word"

definition EUSB2_3P0_VOL_MIN :: int where "EUSB2_3P0_VOL_MIN = 3075000"
definition EUSB2_3P0_VOL_MAX :: int where "EUSB2_3P0_VOL_MAX = 3300000"
definition EUSB2_3P0_HPM_LOAD :: int where "EUSB2_3P0_HPM_LOAD = 3500"
definition EUSB2_1P8_VOL_MIN :: int where "EUSB2_1P8_VOL_MIN = 1800000"
definition EUSB2_1P8_VOL_MAX :: int where "EUSB2_1P8_VOL_MAX = 1800000"
definition EUSB2_1P8_HPM_LOAD :: int where "EUSB2_1P8_HPM_LOAD = 32000"

text \<open>
  The errno numbers come from the kernel's \<open>errno-base.h\<close>, which the driver only
  includes: \<open>ENOMEM\<close> is 12, \<open>ENODEV\<close> is 19, \<open>EINVAL\<close> is 22.
\<close>

definition ENOMEM :: int where "ENOMEM = 12"
definition ENODEV :: int where "ENODEV = 19"
definition EINVAL :: int where "EINVAL = 22"

subsection \<open>Data\<close>

datatype eusb2_repeater_type = TI_REPEATER | NXP_REPEATER

datatype regulator = Vdd18 | Vdd3

datatype call =
    Regulator_set_load regulator int
  | Regulator_set_voltage regulator int int
  | Regulator_enable regulator
  | Regulator_disable regulator
  | Regmap_write u8 u8
  | Regmap_read u8
  | Usleep_range nat nat

type_synonym response = "int \<times> u32"
type_synonym event = "call \<times> response"
type_synonym env = "nat \<Rightarrow> response"

text \<open>
  \<open>struct eusb2_repeater\<close>, with the fields the modelled functions read or write.
  \<open>repeater_type\<close> is \<open>er->chip->repeater_type\<close> and \<open>is_host\<close> is
  \<open>er->ur.is_host\<close>. \<open>tune_buf\<close> is the array \<open>u8 tune_buf[20][2]\<close>: a list of
  (address, value) rows.
\<close>

record eusb2_repeater =
  repeater_type :: eusb2_repeater_type
  is_host :: bool
  power_enabled :: bool
  param_override_seq :: "u8 list"
  param_override_seq_cnt :: u8
  param_host_override_seq :: "u8 list"
  param_host_override_seq_cnt :: u8
  tune_buf_cnt :: int
  tune_buf :: "(u8 \<times> u8) list"
  er_tune_init_done :: bool

subsection \<open>Calls to the outside\<close>

definition ext_call :: "env \<Rightarrow> call \<Rightarrow> event list \<Rightarrow> response \<times> event list" where
  "ext_call env c tr = (env (length tr), tr @ [(c, env (length tr))])"

definition regulator_set_load :: "env \<Rightarrow> regulator \<Rightarrow> int \<Rightarrow> event list \<Rightarrow> int \<times> event list" where
  "regulator_set_load env r uA tr =
     (let (resp, tr') = ext_call env (Regulator_set_load r uA) tr in (fst resp, tr'))"

definition regulator_set_voltage :: "env \<Rightarrow> regulator \<Rightarrow> int \<Rightarrow> int \<Rightarrow> event list \<Rightarrow> int \<times> event list" where
  "regulator_set_voltage env r min_uV max_uV tr =
     (let (resp, tr') = ext_call env (Regulator_set_voltage r min_uV max_uV) tr in (fst resp, tr'))"

definition regulator_enable :: "env \<Rightarrow> regulator \<Rightarrow> event list \<Rightarrow> int \<times> event list" where
  "regulator_enable env r tr =
     (let (resp, tr') = ext_call env (Regulator_enable r) tr in (fst resp, tr'))"

definition regulator_disable :: "env \<Rightarrow> regulator \<Rightarrow> event list \<Rightarrow> int \<times> event list" where
  "regulator_disable env r tr =
     (let (resp, tr') = ext_call env (Regulator_disable r) tr in (fst resp, tr'))"

definition regmap_write :: "env \<Rightarrow> u8 \<Rightarrow> u8 \<Rightarrow> event list \<Rightarrow> int \<times> event list" where
  "regmap_write env reg val tr =
     (let (resp, tr') = ext_call env (Regmap_write reg val) tr in (fst resp, tr'))"

definition regmap_read :: "env \<Rightarrow> u8 \<Rightarrow> event list \<Rightarrow> (int \<times> u32) \<times> event list" where
  "regmap_read env reg tr = ext_call env (Regmap_read reg) tr"

definition usleep_range :: "nat \<Rightarrow> nat \<Rightarrow> event list \<Rightarrow> event list" where
  "usleep_range lo hi tr = tr @ [(Usleep_range lo hi, (0, 0))]"

subsection \<open>eusb2_repeater_power\<close>

text \<open>
  The labels of the function are definitions, each falling through to the next one, in
  the order of the source: \<open>disable_vdd3\<close>, \<open>unset_vdd3\<close>, \<open>put_vdd3_lpm\<close>,
  \<open>disable_vdd18\<close>, \<open>unset_vdd18\<close>, \<open>put_vdd18_lpm\<close>, \<open>err_vdd18\<close>. The result
  is the return value, the device and the log.
\<close>

definition err_vdd18 :: "int \<Rightarrow> eusb2_repeater \<Rightarrow> event list \<Rightarrow> int \<times> eusb2_repeater \<times> event list" where
  "err_vdd18 ret er tr = (ret, er\<lparr>power_enabled := False\<rparr>, tr)"

definition put_vdd18_lpm :: "env \<Rightarrow> eusb2_repeater \<Rightarrow> event list \<Rightarrow> int \<times> eusb2_repeater \<times> event list" where
  "put_vdd18_lpm env er tr =
     (let (ret, tr) = regulator_set_load env Vdd18 0 tr in
      if \<not> power_enabled er then (- EINVAL, er, tr)
      else err_vdd18 ret er tr)"

definition unset_vdd18 :: "env \<Rightarrow> eusb2_repeater \<Rightarrow> event list \<Rightarrow> int \<times> eusb2_repeater \<times> event list" where
  "unset_vdd18 env er tr =
     (let (ret, tr) = regulator_set_voltage env Vdd18 0 EUSB2_1P8_VOL_MAX tr in
      put_vdd18_lpm env er tr)"

definition disable_vdd18 :: "env \<Rightarrow> eusb2_repeater \<Rightarrow> event list \<Rightarrow> int \<times> eusb2_repeater \<times> event list" where
  "disable_vdd18 env er tr =
     (let (ret, tr) = regulator_disable env Vdd18 tr in
      unset_vdd18 env er tr)"

definition put_vdd3_lpm :: "env \<Rightarrow> eusb2_repeater \<Rightarrow> event list \<Rightarrow> int \<times> eusb2_repeater \<times> event list" where
  "put_vdd3_lpm env er tr =
     (let (ret, tr) = regulator_set_load env Vdd3 0 tr in
      disable_vdd18 env er tr)"

definition unset_vdd3 :: "env \<Rightarrow> eusb2_repeater \<Rightarrow> event list \<Rightarrow> int \<times> eusb2_repeater \<times> event list" where
  "unset_vdd3 env er tr =
     (let (ret, tr) = regulator_set_voltage env Vdd3 0 EUSB2_3P0_VOL_MAX tr in
      put_vdd3_lpm env er tr)"

definition disable_vdd3 :: "env \<Rightarrow> eusb2_repeater \<Rightarrow> event list \<Rightarrow> int \<times> eusb2_repeater \<times> event list" where
  "disable_vdd3 env er tr =
     (let (ret, tr) = regulator_disable env Vdd3 tr in
      unset_vdd3 env er tr)"

definition eusb2_repeater_power :: "env \<Rightarrow> eusb2_repeater \<Rightarrow> bool \<Rightarrow> event list \<Rightarrow> int \<times> eusb2_repeater \<times> event list" where
  "eusb2_repeater_power env er on tr =
     (if power_enabled er = on then (0, er, tr)
      else if \<not> on then disable_vdd3 env er tr
      else
        let (ret, tr) = regulator_set_load env Vdd18 EUSB2_1P8_HPM_LOAD tr in
        if ret < 0 then err_vdd18 ret er tr
        else
        let (ret, tr) = regulator_set_voltage env Vdd18 EUSB2_1P8_VOL_MIN EUSB2_1P8_VOL_MAX tr in
        if ret \<noteq> 0 then put_vdd18_lpm env er tr
        else
        let (ret, tr) = regulator_enable env Vdd18 tr in
        if ret \<noteq> 0 then unset_vdd18 env er tr
        else
        let (ret, tr) = regulator_set_load env Vdd3 EUSB2_3P0_HPM_LOAD tr in
        if ret < 0 then disable_vdd18 env er tr
        else
        let (ret, tr) = regulator_set_voltage env Vdd3 EUSB2_3P0_VOL_MIN EUSB2_3P0_VOL_MAX tr in
        if ret \<noteq> 0 then put_vdd3_lpm env er tr
        else
        let (ret, tr) = regulator_enable env Vdd3 tr in
        if ret \<noteq> 0 then unset_vdd3 env er tr
        else (ret, er\<lparr>power_enabled := True\<rparr>, tr))"

definition eusb2_repeater_powerup :: "env \<Rightarrow> eusb2_repeater \<Rightarrow> event list \<Rightarrow> int \<times> eusb2_repeater \<times> event list" where
  "eusb2_repeater_powerup env er tr = eusb2_repeater_power env er True tr"

definition eusb2_repeater_powerdown :: "env \<Rightarrow> eusb2_repeater \<Rightarrow> event list \<Rightarrow> int \<times> eusb2_repeater \<times> event list" where
  "eusb2_repeater_powerdown env er tr = eusb2_repeater_power env er False tr"

subsection \<open>Array accesses\<close>

text \<open>
  C does not check an index. A read or write past the end of an array is undefined
  behaviour; the model stops there with a fault that names the index.
\<close>

datatype fault = Out_of_bounds nat

definition seq_at :: "u8 list \<Rightarrow> nat \<Rightarrow> fault + u8" where
  "seq_at seq i = (if i < length seq then Inr (seq ! i) else Inl (Out_of_bounds i))"

definition tune_buf_at :: "eusb2_repeater \<Rightarrow> nat \<Rightarrow> fault + (u8 \<times> u8)" where
  "tune_buf_at er i =
     (if i < length (tune_buf er) then Inr (tune_buf er ! i) else Inl (Out_of_bounds i))"

subsection \<open>The override sequence, built with CONFIG_USB_NOTIFIER\<close>

text \<open>
  The inner loop \<open>for (j = 0; j < 3; j++)\<close> of the first
  \<open>eusb2_repeater_update_seq\<close>: write, log and go on if the write failed, leave the
  loop if it succeeded.
\<close>

function update_seq_notifier_try ::
  "env \<Rightarrow> u8 list \<Rightarrow> nat \<Rightarrow> nat \<Rightarrow> event list \<Rightarrow> fault + event list" where
  "update_seq_notifier_try env seq i j tr =
     (if j < 3 then
        (case seq_at seq (i * 4 + 7) of
           Inl f \<Rightarrow> Inl f
         | Inr reg \<Rightarrow>
            (case seq_at seq (i * 4 + 3) of
               Inl f \<Rightarrow> Inl f
             | Inr val \<Rightarrow>
                 let (ret, tr) = regmap_write env reg val tr in
                 if ret < 0 then update_seq_notifier_try env seq i (j + 1) tr
                 else Inr tr))
      else Inr tr)"
  by pat_completeness auto
termination
  by (relation "measure (\<lambda>(env, seq, i, j, tr). 3 - j)") auto

declare update_seq_notifier_try.simps [simp del]

text \<open>The outer loop \<open>for (i = 0; i < cnt; i = i+2)\<close>, \<open>cnt\<close> already divided by 4.\<close>

function update_seq_notifier_loop ::
  "env \<Rightarrow> u8 list \<Rightarrow> u8 \<Rightarrow> nat \<Rightarrow> event list \<Rightarrow> fault + event list" where
  "update_seq_notifier_loop env seq cnt i tr =
     (if i < unat cnt then
        (case update_seq_notifier_try env seq i 0 tr of
           Inl f \<Rightarrow> Inl f
         | Inr tr \<Rightarrow> update_seq_notifier_loop env seq cnt (i + 2) tr)
      else Inr tr)"
  by pat_completeness auto
termination
  by (relation "measure (\<lambda>(env, seq, cnt, i, tr). unat cnt - i)") auto

declare update_seq_notifier_loop.simps [simp del]

definition eusb2_repeater_update_seq_notifier ::
  "env \<Rightarrow> u8 list \<Rightarrow> u8 \<Rightarrow> event list \<Rightarrow> fault + event list" where
  "eusb2_repeater_update_seq_notifier env seq cnt tr =
     update_seq_notifier_loop env seq (cnt div 4) 0 tr"

subsection \<open>The override sequence, built without CONFIG_USB_NOTIFIER\<close>

text \<open>
  \<open>eusb2_i2c_read_reg\<close> returns the error code, or 0 and the byte through \<open>*val\<close>:
  here \<open>Inl\<close> the error code, \<open>Inr\<close> the byte (the low 8 bits of what the register
  map delivered).
\<close>

definition eusb2_i2c_read_reg :: "env \<Rightarrow> u8 \<Rightarrow> event list \<Rightarrow> (int + u8) \<times> event list" where
  "eusb2_i2c_read_reg env reg tr =
     (let ((ret, reg_val), tr) = regmap_read env reg tr in
      if ret < 0 then (Inl ret, tr) else (Inr (ucast reg_val), tr))"

definition eusb2_i2c_write_reg :: "env \<Rightarrow> u8 \<Rightarrow> u8 \<Rightarrow> u8 \<Rightarrow> event list \<Rightarrow> int \<times> event list" where
  "eusb2_i2c_write_reg env reg msk val tr =
     (case eusb2_i2c_read_reg env reg tr of
        (Inl ret, tr) \<Rightarrow> (ret, tr)
      | (Inr reg_val, tr) \<Rightarrow>
          let val = val OR (reg_val AND msk);
              (ret, tr) = regmap_write env reg val tr
          in if ret < 0 then (ret, tr) else (0, tr))"

function update_seq_loop ::
  "env \<Rightarrow> u8 list \<Rightarrow> u8 \<Rightarrow> nat \<Rightarrow> event list \<Rightarrow> fault + event list" where
  "update_seq_loop env seq cnt i tr =
     (if i < unat cnt then
        (case seq_at seq i of
           Inl f \<Rightarrow> Inl f
         | Inr val \<Rightarrow>
            (case seq_at seq (i + 1) of
               Inl f \<Rightarrow> Inl f
             | Inr reg \<Rightarrow>
                 let (ret, tr) = eusb2_i2c_write_reg env reg 0xFF val tr in
                 update_seq_loop env seq cnt (i + 2) tr))
      else Inr tr)"
  by pat_completeness auto
termination
  by (relation "measure (\<lambda>(env, seq, cnt, i, tr). unat cnt - i)") auto

declare update_seq_loop.simps [simp del]

definition eusb2_repeater_update_seq ::
  "env \<Rightarrow> u8 list \<Rightarrow> u8 \<Rightarrow> event list \<Rightarrow> fault + event list" where
  "eusb2_repeater_update_seq env seq cnt tr = update_seq_loop env seq cnt 0 tr"

subsection \<open>The tuning buffer (CONFIG_USB_PHY_TUNING_QCOM)\<close>

definition TUNE_BUF_COUNT :: nat where "TUNE_BUF_COUNT = 20"
definition TUNE_MAX_NXP :: nat where "TUNE_MAX_NXP = 17"
definition TUNE_MAX_TI :: nat where "TUNE_MAX_TI = 12"

definition tune_map_nxp :: "u8 list" where
  "tune_map_nxp =
     [0x01, 0x02, 0x03, 0x04, 0x05, 0x06, 0x07, 0x08, 0x09, 0x0A,
      0x0D, 0x0F, 0x10, 0x13, 0x14, 0x15, 0x16]"

definition tune_map_ti :: "u8 list" where
  "tune_map_ti =
     [0x00, 0x40, 0x50, 0x51, 0xB0, 0xB2, 0xB3, 0xB4, 0xB6, 0xB7, 0xA3, 0xA4]"

text \<open>
  The functions below work on the global \<open>ter\<close>, the device the probe registered.
  \<open>er_tune_lock\<close> is taken and released around each of them; one caller at a time is
  modelled, so the lock does not appear.
\<close>

definition eusb2_repeater_tune_buf_init :: "eusb2_repeater \<Rightarrow> eusb2_repeater" where
  "eusb2_repeater_tune_buf_init ter = ter\<lparr>tune_buf := replicate TUNE_BUF_COUNT (0, 0)\<rparr>"

text \<open>The write loop of \<open>eusb2_repeater_tune_set\<close>, \<open>for (j = 0; j < 3; j++)\<close>.\<close>

function tune_set_write ::
  "env \<Rightarrow> eusb2_repeater \<Rightarrow> nat \<Rightarrow> nat \<Rightarrow> event list \<Rightarrow> fault + event list" where
  "tune_set_write env ter i j tr =
     (if j < 3 then
        (case tune_buf_at ter i of
           Inl f \<Rightarrow> Inl f
         | Inr (reg, val) \<Rightarrow>
             if \<not> is_host ter \<and> repeater_type ter = NXP_REPEATER \<and> reg = 0x2 \<and> val = 0x03
             then Inr tr
             else
               let (ret, tr) = regmap_write env reg val tr in
               if ret < 0 then tune_set_write env ter i (j + 1) tr
               else Inr tr)
      else Inr tr)"
  by pat_completeness auto
termination
  by (relation "measure (\<lambda>(env, ter, i, j, tr). 3 - j)") auto

declare tune_set_write.simps [simp del]

text \<open>The read loop of \<open>eusb2_repeater_tune_set\<close>.\<close>

function tune_set_read ::
  "env \<Rightarrow> eusb2_repeater \<Rightarrow> nat \<Rightarrow> nat \<Rightarrow> event list \<Rightarrow> fault + event list" where
  "tune_set_read env ter i j tr =
     (if j < 3 then
        (case tune_buf_at ter i of
           Inl f \<Rightarrow> Inl f
         | Inr (reg, val) \<Rightarrow>
             let ((ret, reg_val), tr) = regmap_read env reg tr in
             if ret < 0 then tune_set_read env ter i (j + 1) tr
             else Inr tr)
      else Inr tr)"
  by pat_completeness auto
termination
  by (relation "measure (\<lambda>(env, ter, i, j, tr). 3 - j)") auto

declare tune_set_read.simps [simp del]

function tune_set_loop ::
  "env \<Rightarrow> eusb2_repeater \<Rightarrow> nat \<Rightarrow> event list \<Rightarrow> fault + event list" where
  "tune_set_loop env ter i tr =
     (if int i < tune_buf_cnt ter then
        (case tune_set_write env ter i 0 tr of
           Inl f \<Rightarrow> Inl f
         | Inr tr \<Rightarrow>
            (case tune_set_read env ter i 0 (usleep_range 1 10 tr) of
               Inl f \<Rightarrow> Inl f
             | Inr tr \<Rightarrow> tune_set_loop env ter (i + 1) (usleep_range 1 2 tr)))
      else Inr tr)"
  by pat_completeness auto
termination
  by (relation "measure (\<lambda>(env, ter, i, tr). nat (tune_buf_cnt ter) - i)") auto

declare tune_set_loop.simps [simp del]

definition eusb2_repeater_tune_set :: "env \<Rightarrow> eusb2_repeater \<Rightarrow> event list \<Rightarrow> fault + event list" where
  "eusb2_repeater_tune_set env ter tr = tune_set_loop env ter 0 tr"

subsubsection \<open>eusb2_repeater_tune_show\<close>

definition hex_digit :: "nat \<Rightarrow> char" where
  "hex_digit d = ''0123456789abcdef'' ! (d mod 16)"

fun hex_str :: "nat \<Rightarrow> string" where
  "hex_str n = (if n < 16 then [hex_digit n] else hex_str (n div 16) @ [hex_digit n])"

declare hex_str.simps [simp del]

text \<open>The conversion \<open>%2x\<close>: lower-case hexadecimal, padded with blanks to two columns.\<close>

definition fmt_2x :: "nat \<Rightarrow> string" where
  "fmt_2x n = replicate (2 - length (hex_str n)) CHR '' '' @ hex_str n"

definition nl :: string where
  "nl = [CHR 0x0A]"

definition failed_to_read_reg :: string where
  "failed_to_read_reg = ''Failed to read reg'' @ nl"

text \<open>
  One of the two \<open>for\<close> loops over a register table. The result is \<open>None\<close> when a read
  failed (the function then returns at once) and the text built in \<open>str\<close> otherwise.
\<close>

function tune_show_loop ::
  "env \<Rightarrow> u8 list \<Rightarrow> nat \<Rightarrow> nat \<Rightarrow> string \<Rightarrow> event list \<Rightarrow> string option \<times> event list" where
  "tune_show_loop env tbl n i str tr =
     (if i < n then
        let ((ret, reg_val), tr) = regmap_read env (tbl ! i) tr in
        if ret < 0 then (None, tr)
        else tune_show_loop env tbl n (i + 1)
               (str @ ''  0x'' @ fmt_2x (unat (tbl ! i)) @ ''   0x'' @ fmt_2x (unat reg_val) @ nl) tr
      else (Some str, tr))"
  by pat_completeness auto
termination
  by (relation "measure (\<lambda>(env, tbl, n, i, str, tr). n - i)") auto

declare tune_show_loop.simps [simp del]

text \<open>The result is the return value, the text left in \<open>buf\<close> and the log.\<close>

definition eusb2_repeater_tune_show ::
  "env \<Rightarrow> eusb2_repeater option \<Rightarrow> string \<Rightarrow> event list \<Rightarrow> int \<times> string \<times> event list" where
  "eusb2_repeater_tune_show env ter buf tr =
     (case ter of
        None \<Rightarrow> (- ENODEV, buf, tr)
      | Some t \<Rightarrow>
          let str = (nl @ '' Address Value - ''
                     @ (if repeater_type t \<noteq> TI_REPEATER then ''NXP'' else ''TI'') @ nl)
          in (case (if repeater_type t = NXP_REPEATER
                    then tune_show_loop env tune_map_nxp TUNE_MAX_NXP 0 str tr
                    else tune_show_loop env tune_map_ti TUNE_MAX_TI 0 str tr) of
                (None, tr) \<Rightarrow> (int (length failed_to_read_reg), failed_to_read_reg, tr)
              | (Some str, tr) \<Rightarrow> (int (length (str @ nl)), str @ nl, tr)))"

subsubsection \<open>eusb2_repeater_tune_store\<close>

text \<open>
  \<open>reg\<close> and \<open>val\<close> are what \<open>sscanf\<close> read from the text written to the attribute;
  \<open>sz\<close> (the parameter \<open>size\<close>) is the length of that text, returned when the function goes through.
  The part after the search loop, with \<open>i\<close> as the loop left it:
\<close>

definition tune_store_new ::
  "env \<Rightarrow> eusb2_repeater \<Rightarrow> u8 \<Rightarrow> u8 \<Rightarrow> int \<Rightarrow> nat \<Rightarrow> event list
     \<Rightarrow> fault + (int \<times> eusb2_repeater \<times> event list)" where
  "tune_store_new env ter reg val sz i tr =
     (if tune_buf_cnt ter < int TUNE_BUF_COUNT then
        let (ret, tr) = regmap_write env reg val tr in
        if ret < 0 then Inr (ret, ter, tr)
        else if \<not> i < length (tune_buf ter) then Inl (Out_of_bounds i)
        else
          let ter = ter\<lparr>tune_buf := (tune_buf ter)[i := (reg, val)]\<rparr>;
              tr = usleep_range 1 2 tr;
              ((ret, reg_val), tr) = regmap_read env reg tr
          in if ret < 0 then Inr (ret, ter, tr)
             else Inr (sz, ter\<lparr>tune_buf_cnt := tune_buf_cnt ter + 1\<rparr>, tr)
      else Inr (sz, ter, tr))"

function tune_store_loop ::
  "env \<Rightarrow> eusb2_repeater \<Rightarrow> u8 \<Rightarrow> u8 \<Rightarrow> int \<Rightarrow> nat \<Rightarrow> event list
     \<Rightarrow> fault + (int \<times> eusb2_repeater \<times> event list)" where
  "tune_store_loop env ter reg val sz i tr =
     (if int i < tune_buf_cnt ter then
        (case tune_buf_at ter i of
           Inl f \<Rightarrow> Inl f
         | Inr (a, v) \<Rightarrow>
             if a = reg then
               let (ret, tr) = regmap_write env reg val tr in
               if ret < 0 then Inr (ret, ter, tr)
               else
                 let ter = ter\<lparr>tune_buf := (tune_buf ter)[i := (a, val)]\<rparr>;
                     tr = usleep_range 1 2 tr;
                     ((ret, reg_val), tr) = regmap_read env reg tr
                 in if ret < 0 then Inr (ret, ter, tr)
                    else Inr (sz, ter, tr)
             else tune_store_loop env ter reg val sz (i + 1) tr)
      else tune_store_new env ter reg val sz i tr)"
  by pat_completeness auto
termination
  by (relation "measure (\<lambda>(env, ter, reg, val, sz, i, tr). nat (tune_buf_cnt ter) - i)") auto

declare tune_store_loop.simps [simp del]

definition eusb2_repeater_tune_store ::
  "env \<Rightarrow> eusb2_repeater option \<Rightarrow> u8 \<Rightarrow> u8 \<Rightarrow> int \<Rightarrow> event list
     \<Rightarrow> fault + (int \<times> eusb2_repeater option \<times> event list)" where
  "eusb2_repeater_tune_store env ter reg val sz tr =
     (case ter of
        None \<Rightarrow> Inr (- ENODEV, None, tr)
      | Some t \<Rightarrow>
         (case tune_store_loop env t reg val sz 0 tr of
            Inl f \<Rightarrow> Inl f
          | Inr (ret, t, tr) \<Rightarrow> Inr (ret, Some t, tr)))"

subsection \<open>eusb2_repeater_init\<close>

text \<open>The two build options the file tests with \<open>IS_ENABLED\<close>.\<close>

record kconfig =
  CONFIG_USB_NOTIFIER :: bool
  CONFIG_USB_PHY_TUNING_QCOM :: bool

definition eusb2_repeater_init ::
  "kconfig \<Rightarrow> env \<Rightarrow> eusb2_repeater \<Rightarrow> event list \<Rightarrow> fault + (int \<times> event list)" where
  "eusb2_repeater_init k env er tr =
     (case (if CONFIG_USB_NOTIFIER k then
              (if param_host_override_seq_cnt er \<noteq> 0 \<and> is_host er then
                 eusb2_repeater_update_seq_notifier env (param_host_override_seq er)
                   (param_host_override_seq_cnt er) tr
               else if param_override_seq_cnt er \<noteq> 0 then
                 eusb2_repeater_update_seq_notifier env (param_override_seq er)
                   (param_override_seq_cnt er) tr
               else Inr tr)
            else if param_override_seq_cnt er \<noteq> 0 then
              eusb2_repeater_update_seq env (param_override_seq er) (param_override_seq_cnt er) tr
            else Inr tr) of
        Inl f \<Rightarrow> Inl f
      | Inr tr \<Rightarrow>
         (case (if CONFIG_USB_PHY_TUNING_QCOM k \<and> tune_buf_cnt er \<noteq> 0 \<and> er_tune_init_done er
                then eusb2_repeater_tune_set env er tr
                else Inr tr) of
            Inl f \<Rightarrow> Inl f
          | Inr tr \<Rightarrow> Inr (0, tr)))"

subsection \<open>eusb2_repeater_i2c_probe\<close>

text \<open>
  What the probe finds on the platform: the outcome of each allocation and lookup it
  makes, and the two device-tree properties (\<open>None\<close> when the property is absent).
  A lookup that hands back an error pointer is \<open>Some\<close> of its error code.
\<close>

record probe_data =
  kzalloc_fails :: bool
  match_data :: eusb2_repeater_type
  regmap_init_null :: bool
  read_reg_base_ret :: int
  vdd3_err :: "int option"
  vdd18_err :: "int option"
  reset_gpiod_err :: "int option"
  irq_get_byname :: int
  request_irq_ret :: int
  param_override_seq_prop :: "u8 list option"
  param_override_seq_alloc_fails :: bool
  param_host_override_seq_prop :: "u8 list option"
  param_host_override_seq_alloc_fails :: bool
  add_repeater_dev_ret :: int

text \<open>
  The two device-tree helpers, as the kernel's \<open>drivers/of/property.c\<close> documents
  them: the count is the number of bytes of the property, \<open>-EINVAL\<close> for an absent
  property and \<open>-ENODATA\<close> for one without a value; the read copies the first
  \<open>sz\<close> bytes, and fails with \<open>-EOVERFLOW\<close> when the property is shorter.
\<close>

definition ENODATA :: int where "ENODATA = 61"
definition EOVERFLOW :: int where "EOVERFLOW = 75"

definition of_property_count_elems_of_size :: "u8 list option \<Rightarrow> int" where
  "of_property_count_elems_of_size prop =
     (case prop of
        None \<Rightarrow> - EINVAL
      | Some xs \<Rightarrow> if xs = [] then - ENODATA else int (length xs))"

definition of_property_read_u8_array :: "u8 list option \<Rightarrow> nat \<Rightarrow> int + u8 list" where
  "of_property_read_u8_array prop sz =
     (case prop of
        None \<Rightarrow> Inl (- EINVAL)
      | Some xs \<Rightarrow>
          if xs = [] then Inl (- ENODATA)
          else if length xs < sz then Inl (- EOVERFLOW)
          else Inr (take sz xs))"

text \<open>The structure as \<open>devm_kzalloc\<close> returns it: every field zero.\<close>

definition er_kzalloc :: eusb2_repeater where
  "er_kzalloc =
     \<lparr>repeater_type = TI_REPEATER, is_host = False, power_enabled = False,
      param_override_seq = [], param_override_seq_cnt = 0,
      param_host_override_seq = [], param_host_override_seq_cnt = 0,
      tune_buf_cnt = 0, tune_buf = replicate TUNE_BUF_COUNT (0, 0),
      er_tune_init_done = False\<rparr>"

text \<open>
  The block of the probe that reads \<open>qcom,param-override-seq\<close>. \<open>num_elem\<close> is an
  \<open>int\<close>; the assignment to the \<open>u8\<close> field \<open>param_override_seq_cnt\<close> keeps its low
  8 bits.
\<close>

definition probe_param_override_seq :: "probe_data \<Rightarrow> eusb2_repeater \<Rightarrow> int + eusb2_repeater" where
  "probe_param_override_seq pd er =
     (let num_elem = of_property_count_elems_of_size (param_override_seq_prop pd) in
      if num_elem > 0 then
        if num_elem mod 2 \<noteq> 0 then Inl (- EINVAL)
        else
          let er = er\<lparr>param_override_seq_cnt := word_of_int num_elem\<rparr> in
          if param_override_seq_alloc_fails pd then Inl (- ENOMEM)
          else
            (case of_property_read_u8_array (param_override_seq_prop pd)
                    (unat (param_override_seq_cnt er)) of
               Inl ret \<Rightarrow> Inl ret
             | Inr xs \<Rightarrow> Inr (er\<lparr>param_override_seq := xs\<rparr>))
      else Inr er)"

text \<open>The same block for \<open>qcom,param-host-override-seq\<close>, under CONFIG_USB_NOTIFIER.\<close>

definition probe_param_host_override_seq :: "probe_data \<Rightarrow> eusb2_repeater \<Rightarrow> int + eusb2_repeater" where
  "probe_param_host_override_seq pd er =
     (let num_elem = of_property_count_elems_of_size (param_host_override_seq_prop pd) in
      if num_elem > 0 then
        if num_elem mod 2 \<noteq> 0 then Inl (- EINVAL)
        else
          let er = er\<lparr>param_host_override_seq_cnt := word_of_int num_elem\<rparr> in
          if param_host_override_seq_alloc_fails pd then Inl (- ENOMEM)
          else
            (case of_property_read_u8_array (param_host_override_seq_prop pd)
                    (unat (param_host_override_seq_cnt er)) of
               Inl ret \<Rightarrow> Inl ret
             | Inr xs \<Rightarrow> Inr (er\<lparr>param_host_override_seq := xs\<rparr>))
      else Inr er)"

text \<open>
  The probe returns its return value and, when it is 0, the device it registered. It
  calls neither the regulators nor the register map: the log goes through unchanged.
  With CONFIG_USB_PHY_TUNING_QCOM the global \<open>ter\<close> is that device from then on.
\<close>

definition eusb2_repeater_i2c_probe ::
  "kconfig \<Rightarrow> probe_data \<Rightarrow> event list \<Rightarrow> int \<times> eusb2_repeater option \<times> event list" where
  "eusb2_repeater_i2c_probe k pd tr =
     (if kzalloc_fails pd then (- ENOMEM, None, tr)
      else
        let er = er_kzalloc\<lparr>repeater_type := match_data pd\<rparr> in
        if regmap_init_null pd then (- EINVAL, None, tr)
        else if read_reg_base_ret pd < 0 then (read_reg_base_ret pd, None, tr)
        else
          (case vdd3_err pd of
             Some e \<Rightarrow> (e, None, tr)
           | None \<Rightarrow>
          (case vdd18_err pd of
             Some e \<Rightarrow> (e, None, tr)
           | None \<Rightarrow>
          (case reset_gpiod_err pd of
             Some e \<Rightarrow> (e, None, tr)
           | None \<Rightarrow>
          if irq_get_byname pd < 0 then (irq_get_byname pd, None, tr)
          else if request_irq_ret pd < 0 then (request_irq_ret pd, None, tr)
          else
            (case probe_param_override_seq pd er of
               Inl ret \<Rightarrow> (ret, None, tr)
             | Inr er \<Rightarrow>
            (case (if CONFIG_USB_NOTIFIER k then probe_param_host_override_seq pd er
                   else Inr er) of
               Inl ret \<Rightarrow> (ret, None, tr)
             | Inr er \<Rightarrow>
                 if add_repeater_dev_ret pd \<noteq> 0 then (add_repeater_dev_ret pd, None, tr)
                 else if CONFIG_USB_PHY_TUNING_QCOM k then
                   (0, Some (eusb2_repeater_tune_buf_init
                               (er\<lparr>tune_buf_cnt := 0, er_tune_init_done := True\<rparr>)), tr)
                 else (0, Some er, tr)))))))"

subsection \<open>Platforms and environments used in the examples\<close>

text \<open>A platform on which every step of the probe goes through.\<close>

definition pd_ok :: "eusb2_repeater_type \<Rightarrow> u8 list option \<Rightarrow> u8 list option \<Rightarrow> probe_data" where
  "pd_ok ty seq host_seq =
     \<lparr>kzalloc_fails = False, match_data = ty, regmap_init_null = False,
      read_reg_base_ret = 0, vdd3_err = None, vdd18_err = None, reset_gpiod_err = None,
      irq_get_byname = 1, request_irq_ret = 0,
      param_override_seq_prop = seq, param_override_seq_alloc_fails = False,
      param_host_override_seq_prop = host_seq, param_host_override_seq_alloc_fails = False,
      add_repeater_dev_ret = 0\<rparr>"

text \<open>
  An outside that answers 0 to every call, one that fails a single call, and the build
  without CONFIG_USB_NOTIFIER.
\<close>

definition env_ok :: env where
  "env_ok = (\<lambda>n. (0, 0))"

definition env_fail_at :: "nat \<Rightarrow> int \<Rightarrow> env" where
  "env_fail_at k c = (\<lambda>n. if n = k then (c, 0) else (0, 0))"

definition k_plain :: kconfig where
  "k_plain = \<lparr>CONFIG_USB_NOTIFIER = False, CONFIG_USB_PHY_TUNING_QCOM = True\<rparr>"

section \<open>Notions used in the properties\<close>

subsection \<open>Power sequencing\<close>

text \<open>
  The six rail steps of a power-up in their order, and for each of them the call that
  takes it back. A load request fails when its return code is negative (\<open>ret < 0\<close>),
  the other requests when it is not zero, as the tests after each call have it.
\<close>

definition up_calls :: "call list" where
  "up_calls =
     [Regulator_set_load Vdd18 32000,
      Regulator_set_voltage Vdd18 1800000 1800000,
      Regulator_enable Vdd18,
      Regulator_set_load Vdd3 3500,
      Regulator_set_voltage Vdd3 3075000 3300000,
      Regulator_enable Vdd3]"

definition undo_calls :: "call list" where
  "undo_calls =
     [Regulator_set_load Vdd18 0,
      Regulator_set_voltage Vdd18 0 1800000,
      Regulator_disable Vdd18,
      Regulator_set_load Vdd3 0,
      Regulator_set_voltage Vdd3 0 3300000,
      Regulator_disable Vdd3]"

definition rail_step_fails :: "nat \<Rightarrow> int \<Rightarrow> bool" where
  "rail_step_fails k ret = (if k = 0 \<or> k = 3 then ret < 0 else ret \<noteq> 0)"

subsection \<open>The plain override sequence\<close>

text \<open>
  The (address, value) pairs of a byte array in array order: the bytes at \<open>2k\<close> and
  \<open>2k + 1\<close> are a value and its address. \<open>write_masked_all\<close> applies
  \<open>eusb2_i2c_write_reg\<close> with the mask \<open>0xFF\<close> to every pair of a list, in order.
  \<open>probe_reaches_override_seq\<close> says that the probe gets as far as the override
  property, and \<open>attach_and_init\<close> is a probe followed by the first \<open>init\<close> of the
  device it registered.
\<close>

definition plain_pairs :: "u8 list \<Rightarrow> (u8 \<times> u8) list" where
  "plain_pairs seq = map (\<lambda>k. (seq ! (2 * k + 1), seq ! (2 * k))) [0..<length seq div 2]"

definition write_masked_all :: "env \<Rightarrow> (u8 \<times> u8) list \<Rightarrow> event list \<Rightarrow> event list" where
  "write_masked_all env pairs tr =
     fold (\<lambda>(reg, val) tr. snd (eusb2_i2c_write_reg env reg 0xFF val tr)) pairs tr"

definition probe_reaches_override_seq :: "probe_data \<Rightarrow> bool" where
  "probe_reaches_override_seq pd =
     (\<not> kzalloc_fails pd \<and> \<not> regmap_init_null pd \<and> \<not> read_reg_base_ret pd < 0
      \<and> vdd3_err pd = None \<and> vdd18_err pd = None \<and> reset_gpiod_err pd = None
      \<and> \<not> irq_get_byname pd < 0 \<and> \<not> request_irq_ret pd < 0)"

definition attach_and_init ::
  "kconfig \<Rightarrow> probe_data \<Rightarrow> env \<Rightarrow> int + (fault + (int \<times> event list))" where
  "attach_and_init k pd env =
     (case eusb2_repeater_i2c_probe k pd [] of
        (ret, None, tr) \<Rightarrow> Inl ret
      | (ret, Some er, tr) \<Rightarrow> Inr (eusb2_repeater_init k env er tr))"

definition er_plain4 :: eusb2_repeater where
  "er_plain4 = eusb2_repeater_tune_buf_init
     (er_kzalloc\<lparr>repeater_type := NXP_REPEATER, param_override_seq_cnt := 4,
        param_override_seq := [0xAA, 0x02, 0xBB, 0x05], tune_buf_cnt := 0,
        er_tune_init_done := True\<rparr>)"

subsection \<open>The tuning buffer\<close>

text \<open>
  The register table of the device's chip, and the log of reading the entries \<open>i\<close> to
  \<open>m - 1\<close> of a table in table order, the read of entry \<open>j\<close> being the call at
  position \<open>off + j\<close>. \<open>ter_nxp\<close> is an NXP device as the probe leaves it.
\<close>

definition tune_table :: "eusb2_repeater \<Rightarrow> u8 list" where
  "tune_table t = (if repeater_type t = NXP_REPEATER then tune_map_nxp else tune_map_ti)"

definition table_reads :: "env \<Rightarrow> u8 list \<Rightarrow> nat \<Rightarrow> nat \<Rightarrow> nat \<Rightarrow> event list" where
  "table_reads env tbl off i m = map (\<lambda>j. (Regmap_read (tbl ! j), env (off + j))) [i..<m]"

definition ter_nxp :: eusb2_repeater where
  "ter_nxp = eusb2_repeater_tune_buf_init
     (er_kzalloc\<lparr>repeater_type := NXP_REPEATER, tune_buf_cnt := 0, er_tune_init_done := True\<rparr>)"

text \<open>
  The bounds that keep every access to \<open>tune_buf\<close> inside the array. \<open>store_events\<close>
  and \<open>store_result\<close> are the calls and the return value of a store that goes as far
  as the register: one write, and after a write that succeeded a pause and one read; the
  error code of the call that failed, or \<open>sz\<close>. \<open>tune_store_calls\<close> is a sequence of
  stores, with the return value of each. \<open>ter_one\<close> holds one entry and \<open>ter_full\<close>
  twenty.
\<close>

definition tune_inv :: "eusb2_repeater \<Rightarrow> bool" where
  "tune_inv t = (0 \<le> tune_buf_cnt t \<and> tune_buf_cnt t \<le> 20 \<and> length (tune_buf t) = 20)"

definition store_events :: "env \<Rightarrow> u8 \<Rightarrow> u8 \<Rightarrow> event list \<Rightarrow> event list" where
  "store_events env reg val tr =
     (if fst (env (length tr)) < 0 then [(Regmap_write reg val, env (length tr))]
      else [(Regmap_write reg val, env (length tr)), (Usleep_range 1 2, (0, 0)),
            (Regmap_read reg, env (length tr + 2))])"

definition store_result :: "env \<Rightarrow> int \<Rightarrow> event list \<Rightarrow> int" where
  "store_result env sz tr =
     (if fst (env (length tr)) < 0 then fst (env (length tr))
      else if fst (env (length tr + 2)) < 0 then fst (env (length tr + 2))
      else sz)"

fun tune_store_calls ::
  "env \<Rightarrow> eusb2_repeater option \<Rightarrow> (u8 \<times> u8 \<times> int) list \<Rightarrow> event list
     \<Rightarrow> fault + (int list \<times> eusb2_repeater option \<times> event list)" where
  "tune_store_calls env ter [] tr = Inr ([], ter, tr)"
| "tune_store_calls env ter ((reg, val, sz) # cs) tr =
     (case eusb2_repeater_tune_store env ter reg val sz tr of
        Inl f \<Rightarrow> Inl f
      | Inr (ret, ter, tr) \<Rightarrow>
         (case tune_store_calls env ter cs tr of
            Inl f \<Rightarrow> Inl f
          | Inr (rets, ter, tr) \<Rightarrow> Inr (ret # rets, ter, tr)))"

definition ter_one :: eusb2_repeater where
  "ter_one = ter_nxp\<lparr>tune_buf := (tune_buf ter_nxp)[0 := (4, 1)], tune_buf_cnt := 1\<rparr>"

definition ter_full :: eusb2_repeater where
  "ter_full = ter_nxp\<lparr>tune_buf := map (\<lambda>k. (of_nat k, 0)) [0..<20], tune_buf_cnt := 20\<rparr>"

text \<open>
  For \<open>eusb2_repeater_tune_set\<close>: the register writes of a log; the writes of one entry
  written with retries (one to three writes of that entry, all but the last failed, and
  the last one succeeded unless it is the third); the entry that is left out (client
  role, NXP chip, address \<open>0x02\<close> with value \<open>0x03\<close>). \<open>ter_three\<close> holds three
  entries, the first of them the one left out.
\<close>

definition is_write :: "event \<Rightarrow> bool" where
  "is_write e = (case fst e of Regmap_write reg val \<Rightarrow> True | _ \<Rightarrow> False)"

definition retried_write :: "u8 \<times> u8 \<Rightarrow> event list \<Rightarrow> bool" where
  "retried_write e ws =
     (ws \<noteq> [] \<and> length ws \<le> 3
      \<and> list_all (\<lambda>w. fst w = Regmap_write (fst e) (snd e)) ws
      \<and> list_all (\<lambda>w. fst (snd w) < 0) (butlast ws)
      \<and> (length ws < 3 \<longrightarrow> \<not> fst (snd (last ws)) < 0))"

definition tune_skip :: "eusb2_repeater \<Rightarrow> u8 \<times> u8 \<Rightarrow> bool" where
  "tune_skip t e = (\<not> is_host t \<and> repeater_type t = NXP_REPEATER \<and> e = (0x02, 0x03))"

definition ter_three :: eusb2_repeater where
  "ter_three = ter_nxp\<lparr>tune_buf := (tune_buf ter_nxp)[0 := (0x02, 0x03), 1 := (0x10, 0x01),
                                                         2 := (0x14, 0x02)],
                       tune_buf_cnt := 3\<rparr>"

section \<open>Verified properties\<close>

subsection \<open>Power sequencing\<close>

lemmas power_defs = eusb2_repeater_power_def err_vdd18_def put_vdd18_lpm_def unset_vdd18_def
  disable_vdd18_def put_vdd3_lpm_def unset_vdd3_def disable_vdd3_def
  regulator_set_load_def regulator_set_voltage_def regulator_enable_def regulator_disable_def
  ext_call_def
  EUSB2_3P0_VOL_MIN_def EUSB2_3P0_VOL_MAX_def EUSB2_3P0_HPM_LOAD_def
  EUSB2_1P8_VOL_MIN_def EUSB2_1P8_VOL_MAX_def EUSB2_1P8_HPM_LOAD_def

text \<open>
  A power-up from Off whose step \<open>k\<close> (counted from 0) is the first to fail: the return
  value, the device and the calls made.
\<close>

lemma power_up_fail:
  assumes off: "\<not> power_enabled er"
    and k: "k < 6"
    and ok: "\<forall>j<k. \<not> rail_step_fails j (fst (env (length tr + j)))"
    and bad: "rail_step_fails k (fst (env (length tr + k)))"
  shows "\<exists>tr'. eusb2_repeater_power env er True tr =
            (if k = 0 then fst (env (length tr)) else - EINVAL, er, tr @ tr')
           \<and> map fst tr' = take (Suc k) up_calls @ rev (take k undo_calls)"
proof -
  from k have "k = 0 \<or> k = 1 \<or> k = 2 \<or> k = 3 \<or> k = 4 \<or> k = 5" by arith
  then show ?thesis
  proof (elim disjE)
    assume "k = 0" with off bad show ?thesis
      by (simp add: power_defs rail_step_fails_def up_calls_def undo_calls_def)
  next
    assume "k = 1" with off bad ok show ?thesis
      by (simp add: power_defs rail_step_fails_def up_calls_def undo_calls_def)
  next
    assume "k = 2" with off bad ok show ?thesis
      by (simp add: power_defs rail_step_fails_def up_calls_def undo_calls_def
            eval_nat_numeral less_Suc_eq all_conj_distrib)
  next
    assume "k = 3" with off bad ok show ?thesis
      by (simp add: power_defs rail_step_fails_def up_calls_def undo_calls_def
            eval_nat_numeral less_Suc_eq all_conj_distrib)
  next
    assume "k = 4" with off bad ok show ?thesis
      by (simp add: power_defs rail_step_fails_def up_calls_def undo_calls_def
            eval_nat_numeral less_Suc_eq all_conj_distrib)
  next
    assume "k = 5" with off bad ok show ?thesis
      by (simp add: power_defs rail_step_fails_def up_calls_def undo_calls_def
            eval_nat_numeral less_Suc_eq all_conj_distrib)
  qed
qed

text \<open>
  C1. A power-up that starts in state Off and whose step \<open>k\<close> is the first to fail makes
  the steps up to and including \<open>k\<close>, then takes back the steps before \<open>k\<close> in
  reverse order, makes no other call, and leaves the state Off.
\<close>

theorem power_up_failure_unwinds:
  assumes off: "\<not> power_enabled er"
    and k: "k < 6"
    and ok: "\<forall>j<k. \<not> rail_step_fails j (fst (env (length tr + j)))"
    and bad: "rail_step_fails k (fst (env (length tr + k)))"
  shows "\<exists>ret er' tr'. eusb2_repeater_powerup env er tr = (ret, er', tr @ tr')
           \<and> map fst tr' = take (Suc k) up_calls @ rev (take k undo_calls)
           \<and> \<not> power_enabled er'"
  using power_up_fail [OF assms] off unfolding eusb2_repeater_powerup_def by blast

theorem power_up_failure_unwinds_witness:
  "\<not> power_enabled er_kzalloc \<and> (5::nat) < 6
   \<and> \<not> rail_step_fails 0 (fst (env_fail_at 5 (- 5) 0))
   \<and> \<not> rail_step_fails 1 (fst (env_fail_at 5 (- 5) 1))
   \<and> \<not> rail_step_fails 2 (fst (env_fail_at 5 (- 5) 2))
   \<and> \<not> rail_step_fails 3 (fst (env_fail_at 5 (- 5) 3))
   \<and> \<not> rail_step_fails 4 (fst (env_fail_at 5 (- 5) 4))
   \<and> rail_step_fails 5 (fst (env_fail_at 5 (- 5) 5))
   \<and> (\<exists>ret er' tr'. eusb2_repeater_powerup (env_fail_at 5 (- 5)) er_kzalloc [] = (ret, er', [] @ tr')
           \<and> map fst tr' = take (Suc 5) up_calls @ rev (take 5 undo_calls)
           \<and> \<not> power_enabled er')"
proof -
  have h1: "\<not> power_enabled er_kzalloc" by (simp add: er_kzalloc_def)
  have h2: "(5::nat) < 6" by simp
  have h3: "\<forall>j<5. \<not> rail_step_fails j (fst (env_fail_at 5 (- 5) (length ([]::event list) + j)))"
    by (simp add: rail_step_fails_def env_fail_at_def)
  have h4: "rail_step_fails 5 (fst (env_fail_at 5 (- 5) (length ([]::event list) + 5)))"
    by (simp add: rail_step_fails_def env_fail_at_def)
  have h5: "\<not> rail_step_fails 0 (fst (env_fail_at 5 (- 5) 0))
      \<and> \<not> rail_step_fails 1 (fst (env_fail_at 5 (- 5) 1))
      \<and> \<not> rail_step_fails 2 (fst (env_fail_at 5 (- 5) 2))
      \<and> \<not> rail_step_fails 3 (fst (env_fail_at 5 (- 5) 3))
      \<and> \<not> rail_step_fails 4 (fst (env_fail_at 5 (- 5) 4))
      \<and> rail_step_fails 5 (fst (env_fail_at 5 (- 5) 5))"
    by (simp add: rail_step_fails_def env_fail_at_def)
  from power_up_failure_unwinds [OF h1 h2 h3 h4] h1 h2 h5 show ?thesis by blast
qed

text \<open>
  C2, as the claim states it, fails: when the voltage request for \<open>vdd18\<close> (step 1) is
  the first to fail, with code -5, the power-up returns -22 (\<open>-EINVAL\<close>).
\<close>

theorem power_up_failure_code_lost:
  "\<not> rail_step_fails 0 (fst (env_fail_at 1 (- 5) 0))
   \<and> rail_step_fails 1 (fst (env_fail_at 1 (- 5) 1))
   \<and> fst (env_fail_at 1 (- 5) 1) = - 5
   \<and> fst (eusb2_repeater_powerup (env_fail_at 1 (- 5)) er_kzalloc []) = - 22"
  by (simp add: eusb2_repeater_powerup_def power_defs rail_step_fails_def env_fail_at_def
        er_kzalloc_def EINVAL_def)

text \<open>
  C2, amended. A power-up from Off whose first failing step is step 0 (the load request
  for \<open>vdd18\<close>) returns that step's return code; when the first failing step is any of
  the steps 1 to 5 it returns \<open>-EINVAL\<close>, whatever the step and whatever the calls of
  the unwind return.
\<close>

theorem power_up_failure_code:
  assumes off: "\<not> power_enabled er"
    and k: "k < 6"
    and ok: "\<forall>j<k. \<not> rail_step_fails j (fst (env (length tr + j)))"
    and bad: "rail_step_fails k (fst (env (length tr + k)))"
  shows "fst (eusb2_repeater_powerup env er tr) =
           (if k = 0 then fst (env (length tr)) else - EINVAL)"
  using power_up_fail [OF assms] unfolding eusb2_repeater_powerup_def by auto

theorem power_up_failure_code_witness:
  "\<not> power_enabled er_kzalloc \<and> (3::nat) < 6
   \<and> \<not> rail_step_fails 0 (fst (env_fail_at 3 (- 5) 0))
   \<and> \<not> rail_step_fails 1 (fst (env_fail_at 3 (- 5) 1))
   \<and> \<not> rail_step_fails 2 (fst (env_fail_at 3 (- 5) 2))
   \<and> rail_step_fails 3 (fst (env_fail_at 3 (- 5) 3))
   \<and> fst (eusb2_repeater_powerup (env_fail_at 3 (- 5)) er_kzalloc []) = - EINVAL"
proof -
  have h1: "\<not> power_enabled er_kzalloc" by (simp add: er_kzalloc_def)
  have h2: "(3::nat) < 6" by simp
  have h3: "\<forall>j<3. \<not> rail_step_fails j (fst (env_fail_at 3 (- 5) (length ([]::event list) + j)))"
    by (simp add: rail_step_fails_def env_fail_at_def)
  have h4: "rail_step_fails 3 (fst (env_fail_at 3 (- 5) (length ([]::event list) + 3)))"
    by (simp add: rail_step_fails_def env_fail_at_def)
  have h5: "\<not> rail_step_fails 0 (fst (env_fail_at 3 (- 5) 0))
      \<and> \<not> rail_step_fails 1 (fst (env_fail_at 3 (- 5) 1))
      \<and> \<not> rail_step_fails 2 (fst (env_fail_at 3 (- 5) 2))
      \<and> rail_step_fails 3 (fst (env_fail_at 3 (- 5) 3))"
    by (simp add: rail_step_fails_def env_fail_at_def)
  from power_up_failure_code [OF h1 h2 h3 h4] h1 h2 h5 show ?thesis by simp
qed

text \<open>
  C9. A power-up of a device that is On and a power-down of a device that is Off return
  0, call no regulator and leave the device as it is.
\<close>

theorem power_idempotent:
  "eusb2_repeater_powerup env (er\<lparr>power_enabled := True\<rparr>) tr
     = (0, er\<lparr>power_enabled := True\<rparr>, tr)
   \<and> eusb2_repeater_powerdown env (er\<lparr>power_enabled := False\<rparr>) tr
     = (0, er\<lparr>power_enabled := False\<rparr>, tr)"
  by (simp add: eusb2_repeater_power_def eusb2_repeater_powerup_def eusb2_repeater_powerdown_def)

subsection \<open>Register access\<close>

lemmas bus_defs = regmap_write_def regmap_read_def ext_call_def usleep_range_def

lemma and_ff: "(x::u8) AND 0xFF = x"
proof -
  have e: "(0xFF::u8) = - 1" by simp
  show ?thesis by (subst e) (rule and.right_neutral)
qed

text \<open>
  C6. \<open>eusb2_i2c_write_reg\<close> first reads the register. When the read succeeds, the next
  and last call writes \<open>val | (current & mask)\<close>, \<open>current\<close> being the byte read; when
  the read fails, its error code is returned and nothing is written. With the mask
  \<open>0xFF\<close> the byte written is \<open>val | current\<close>.
\<close>

theorem write_reg_merges:
  "eusb2_i2c_write_reg env reg msk val tr =
     (if fst (env (length tr)) < 0
      then (fst (env (length tr)), tr @ [(Regmap_read reg, env (length tr))])
      else ((if fst (env (Suc (length tr))) < 0 then fst (env (Suc (length tr))) else 0),
            tr @ [(Regmap_read reg, env (length tr)),
                  (Regmap_write reg (val OR (ucast (snd (env (length tr))) AND msk)),
                   env (Suc (length tr)))]))
   \<and> val OR (ucast (snd (env (length tr))) AND (0xFF :: u8)) = val OR ucast (snd (env (length tr)))"
  by (simp add: eusb2_i2c_write_reg_def eusb2_i2c_read_reg_def bus_defs and_ff split: prod.splits)

theorem write_reg_merges_witness:
  "eusb2_i2c_write_reg (\<lambda>n. (0, 0x11)) 0x02 0xFF 0xAA [] =
     (0, [(Regmap_read 0x02, (0, 0x11)), (Regmap_write 0x02 0xBB, (0, 0x11))])"
  using write_reg_merges [where env = "\<lambda>n. (0, 0x11)" and tr = "[]" and reg = 2
      and msk = "0xFF" and val = "0xAA"]
  by simp

subsection \<open>The host override sequence\<close>

lemma try_in_bounds:
  "i * 4 + 7 < length seq \<Longrightarrow> \<exists>tr'. update_seq_notifier_try env seq i j tr = Inr tr'"
proof (induction env seq i j tr rule: update_seq_notifier_try.induct)
  case (1 env seq i j tr)
  show ?case
  proof (cases "j < 3")
    case False then show ?thesis by (simp add: update_seq_notifier_try.simps)
  next
    case True
    with 1 show ?thesis
      by (subst update_seq_notifier_try.simps) (auto simp: seq_at_def split: prod.splits)
  qed
qed

lemma try_out_of_bounds:
  "\<not> i * 4 + 7 < length seq \<Longrightarrow>
     update_seq_notifier_try env seq i 0 tr = Inl (Out_of_bounds (i * 4 + 7))"
  by (simp add: update_seq_notifier_try.simps seq_at_def)

lemma loop_faults:
  "length seq = 8 * m + 4 \<Longrightarrow> unat c = 2 * m + 1 \<Longrightarrow> even i \<Longrightarrow> i \<le> 2 * m \<Longrightarrow>
     update_seq_notifier_loop env seq c i tr = Inl (Out_of_bounds (8 * m + 7))"
proof (induction env seq c i tr rule: update_seq_notifier_loop.induct)
  case (1 env seq cnt i tr)
  note len = \<open>length seq = 8 * m + 4\<close> and c = \<open>unat cnt = 2 * m + 1\<close>
    and ev = \<open>even i\<close> and le = \<open>i \<le> 2 * m\<close>
  have lt: "i < unat cnt" using c le by simp
  show ?case
  proof (cases "i * 4 + 7 < length seq")
    case True
    then obtain tr' where t: "update_seq_notifier_try env seq i 0 tr = Inr tr'"
      using try_in_bounds by blast
    from True len have "i < 2 * m" by arith
    with ev have le': "i + 2 \<le> 2 * m" by presburger
    have ev': "even (i + 2)" using ev by simp
    have "update_seq_notifier_loop env seq cnt (i + 2) tr' = Inl (Out_of_bounds (8 * m + 7))"
      by (rule "1.IH" [OF lt t len c ev' le'])
    with lt t show ?thesis by (subst update_seq_notifier_loop.simps) simp
  next
    case False
    with len le have "i = 2 * m" by arith
    with False lt show ?thesis
      by (subst update_seq_notifier_loop.simps) (simp add: try_out_of_bounds)
  qed
qed

lemma loop_in_bounds:
  "length seq = 8 * m \<Longrightarrow> unat c = 2 * m \<Longrightarrow> even i \<Longrightarrow>
     \<exists>tr'. update_seq_notifier_loop env seq c i tr = Inr tr'"
proof (induction env seq c i tr rule: update_seq_notifier_loop.induct)
  case (1 env seq cnt i tr)
  note len = \<open>length seq = 8 * m\<close> and c = \<open>unat cnt = 2 * m\<close> and ev = \<open>even i\<close>
  show ?case
  proof (cases "i < unat cnt")
    case False then show ?thesis by (subst update_seq_notifier_loop.simps) simp
  next
    case lt: True
    from lt c ev have "i + 2 \<le> 2 * m" by presburger
    with len have "i * 4 + 7 < length seq" by arith
    then obtain tr' where t: "update_seq_notifier_try env seq i 0 tr = Inr tr'"
      using try_in_bounds by blast
    have ev': "even (i + 2)" using ev by simp
    have "\<exists>tr''. update_seq_notifier_loop env seq cnt (i + 2) tr' = Inr tr''"
      by (rule "1.IH" [OF lt t len c ev'])
    with lt t show ?thesis by (subst update_seq_notifier_loop.simps) simp
  qed
qed

lemma unat_div4: "unat ((c :: u8) div 4) = unat c div 4"
  by (simp add: unat_div)

text \<open>
  C10. The decoder built with CONFIG_USB_NOTIFIER gets an array of \<open>cnt\<close> bytes. When
  \<open>cnt\<close> is 4 modulo 8, it runs into a read past the end of the array: the read of the
  address byte of the last tuple \<open>k = cnt / 4 - 1\<close>, at index \<open>4k + 7\<close>. When \<open>cnt\<close> is
  a multiple of 8 it runs through, and every index \<open>4i + 3\<close> and \<open>4i + 7\<close> it reads is
  inside the array.
\<close>

theorem host_override_out_of_bounds:
  assumes len: "length seq = unat cnt"
  shows "(unat cnt mod 8 = 4 \<longrightarrow>
            eusb2_repeater_update_seq_notifier env seq cnt tr
              = Inl (Out_of_bounds (4 * (unat cnt div 4 - 1) + 7))
            \<and> length seq \<le> 4 * (unat cnt div 4 - 1) + 7)
       \<and> (unat cnt mod 8 = 0 \<longrightarrow>
            (\<exists>tr'. eusb2_repeater_update_seq_notifier env seq cnt tr = Inr tr')
            \<and> (\<forall>i < unat cnt div 4. even i \<longrightarrow> i * 4 + 3 < length seq \<and> i * 4 + 7 < length seq))"
proof (intro conjI impI)
  assume m4: "unat cnt mod 8 = 4"
  define m where "m = unat cnt div 8"
  have c: "unat cnt = 8 * m + 4" using m4 by (simp add: m_def) presburger
  have d: "unat (cnt div 4) = 2 * m + 1" using c by (simp add: unat_div4)
  have "update_seq_notifier_loop env seq (cnt div 4) 0 tr = Inl (Out_of_bounds (8 * m + 7))"
    by (rule loop_faults [OF _ d]) (simp_all add: len c)
  moreover have "4 * (unat cnt div 4 - 1) + 7 = 8 * m + 7" using c by simp
  ultimately show "eusb2_repeater_update_seq_notifier env seq cnt tr
              = Inl (Out_of_bounds (4 * (unat cnt div 4 - 1) + 7))"
    by (simp add: eusb2_repeater_update_seq_notifier_def)
  show "length seq \<le> 4 * (unat cnt div 4 - 1) + 7" using c len by simp
next
  assume m0: "unat cnt mod 8 = 0"
  define m where "m = unat cnt div 8"
  have c: "unat cnt = 8 * m" using m0 by (simp add: m_def) presburger
  have d: "unat (cnt div 4) = 2 * m" using c by (simp add: unat_div4)
  show "\<exists>tr'. eusb2_repeater_update_seq_notifier env seq cnt tr = Inr tr'"
    unfolding eusb2_repeater_update_seq_notifier_def
    by (rule loop_in_bounds [OF _ d]) (simp_all add: len c)
  show "\<forall>i < unat cnt div 4. even i \<longrightarrow> i * 4 + 3 < length seq \<and> i * 4 + 7 < length seq"
    using c len by (auto elim!: evenE)
qed

theorem host_override_out_of_bounds_witness:
  "probe_param_host_override_seq (pd_ok NXP_REPEATER None (Some [1, 2, 3, 4])) er_kzalloc
     = Inr (er_kzalloc\<lparr>param_host_override_seq_cnt := 4, param_host_override_seq := [1, 2, 3, 4]\<rparr>)
   \<and> length [1, 2, 3, 4 :: u8] = unat (4 :: u8) \<and> unat (4 :: u8) mod 8 = 4
   \<and> eusb2_repeater_update_seq_notifier env_ok [1, 2, 3, 4] 4 [] = Inl (Out_of_bounds 7)
   \<and> length [1, 2, 3, 4, 5, 6, 7, 8 :: u8] = unat (8 :: u8) \<and> unat (8 :: u8) mod 8 = 0
   \<and> (\<exists>tr'. eusb2_repeater_update_seq_notifier env_ok [1, 2, 3, 4, 5, 6, 7, 8] 8 [] = Inr tr')"
proof -
  have p: "probe_param_host_override_seq (pd_ok NXP_REPEATER None (Some [1, 2, 3, 4])) er_kzalloc
     = Inr (er_kzalloc\<lparr>param_host_override_seq_cnt := 4, param_host_override_seq := [1, 2, 3, 4]\<rparr>)"
    by (simp add: probe_param_host_override_seq_def pd_ok_def of_property_count_elems_of_size_def
          of_property_read_u8_array_def)
  have l4: "length [1, 2, 3, 4 :: u8] = unat (4 :: u8)" by simp
  have l8: "length [1, 2, 3, 4, 5, 6, 7, 8 :: u8] = unat (8 :: u8)" by simp
  from host_override_out_of_bounds [OF l4, of env_ok "[]"]
       host_override_out_of_bounds [OF l8, of env_ok "[]"] p
  show ?thesis by simp
qed

subsection \<open>The plain override sequence\<close>

lemma update_seq_loop_plays:
  "length seq = unat cnt \<Longrightarrow> even (unat cnt) \<Longrightarrow> even i \<Longrightarrow>
     update_seq_loop env seq cnt i tr =
       Inr (write_masked_all env
              (map (\<lambda>k. (seq ! (2 * k + 1), seq ! (2 * k))) [i div 2..<unat cnt div 2]) tr)"
proof (induction env seq cnt i tr rule: update_seq_loop.induct)
  case (1 env seq cnt i tr)
  note len = \<open>length seq = unat cnt\<close> and evc = \<open>even (unat cnt)\<close> and ev = \<open>even i\<close>
  show ?case
  proof (cases "i < unat cnt")
    case False
    then have "unat cnt div 2 \<le> i div 2" by (simp add: div_le_mono)
    with False show ?thesis
      by (subst update_seq_loop.simps) (simp add: write_masked_all_def)
  next
    case lt: True
    from lt ev evc have lt1: "i + 1 < unat cnt" by presburger
    have a0: "seq_at seq i = Inr (seq ! i)" using lt len by (simp add: seq_at_def)
    have a1: "seq_at seq (i + 1) = Inr (seq ! (i + 1))" using lt1 len by (simp add: seq_at_def)
    obtain ret tr' where w: "eusb2_i2c_write_reg env (seq ! (i + 1)) 0xFF (seq ! i) tr = (ret, tr')"
      by (cases "eusb2_i2c_write_reg env (seq ! (i + 1)) 0xFF (seq ! i) tr")
    have ev': "even (i + 2)" using ev by simp
    have ih: "update_seq_loop env seq cnt (i + 2) tr' =
       Inr (write_masked_all env
              (map (\<lambda>k. (seq ! (2 * k + 1), seq ! (2 * k))) [(i + 2) div 2..<unat cnt div 2]) tr')"
      by (rule "1.IH" [OF lt a0 a1 refl w [symmetric] len evc ev'])
    from lt1 have lt2: "i div 2 < unat cnt div 2" using ev evc by presburger
    have i2: "2 * (i div 2) = i" using ev by simp
    have up: "[i div 2..<unat cnt div 2] = i div 2 # [(i + 2) div 2..<unat cnt div 2]"
      using lt2 by (simp add: upt_conv_Cons)
    have a1s: "seq_at seq (Suc i) = Inr (seq ! Suc i)" using a1 by simp
    have ws: "eusb2_i2c_write_reg env (seq ! Suc i) 0xFF (seq ! i) tr = (ret, tr')"
      using w by simp
    show ?thesis using ih
      by (subst update_seq_loop.simps) (simp add: lt a0 a1s ws up write_masked_all_def i2)
  qed
qed

lemma update_seq_plays:
  "length seq = unat cnt \<Longrightarrow> even (unat cnt) \<Longrightarrow>
     eusb2_repeater_update_seq env seq cnt tr = Inr (write_masked_all env (plain_pairs seq) tr)"
  using update_seq_loop_plays [of seq cnt 0 env tr]
  by (simp add: eusb2_repeater_update_seq_def plain_pairs_def)

lemma probe_block_accepts:
  assumes "param_override_seq_prop pd = Some seq" "even (length seq)" "length seq < 256"
    and "probe_param_override_seq pd er = Inr er'"
  shows "er' = (if seq = [] then er
                else er\<lparr>param_override_seq_cnt := of_nat (length seq), param_override_seq := seq\<rparr>)"
  using assms
  by (auto simp: probe_param_override_seq_def of_property_count_elems_of_size_def
        of_property_read_u8_array_def ENODATA_def unat_of_nat Let_def
        split: if_splits sum.splits)

lemma probe_block_rejects:
  assumes "param_override_seq_prop pd = Some seq" "odd (length seq)"
  shows "probe_param_override_seq pd er = Inl (- EINVAL)"
  using assms
  by (auto simp: probe_param_override_seq_def of_property_count_elems_of_size_def Let_def
        elim!: oddE)


lemma probe_plain_fields:
  assumes p: "eusb2_repeater_i2c_probe k pd tr0 = (0, Some er, tr1)"
    and nn: "\<not> CONFIG_USB_NOTIFIER k"
    and pp: "param_override_seq_prop pd = Some seq"
    and ev: "even (length seq)" and lt: "length seq < 256"
  shows "param_override_seq er = seq \<and> param_override_seq_cnt er = of_nat (length seq)
         \<and> tune_buf_cnt er = 0 \<and> tr1 = tr0"
proof -
  obtain er' where b: "probe_param_override_seq pd (er_kzalloc\<lparr>repeater_type := match_data pd\<rparr>) = Inr er'"
    and e: "er = (if CONFIG_USB_PHY_TUNING_QCOM k
                  then eusb2_repeater_tune_buf_init (er'\<lparr>tune_buf_cnt := 0, er_tune_init_done := True\<rparr>)
                  else er')"
    and t: "tr1 = tr0"
    using p nn
    by (auto simp: eusb2_repeater_i2c_probe_def Let_def split: if_splits option.splits sum.splits)
  from probe_block_accepts [OF pp ev lt b]
  have "param_override_seq er' = seq \<and> param_override_seq_cnt er' = of_nat (length seq)
        \<and> tune_buf_cnt er' = 0"
    by (auto simp: er_kzalloc_def)
  with e t show ?thesis by (simp add: eusb2_repeater_tune_buf_init_def)
qed

lemma probe_odd_rejected:
  assumes pp: "param_override_seq_prop pd = Some seq" and od: "odd (length seq)"
  shows "snd (eusb2_repeater_i2c_probe k pd tr) = (None, tr)
         \<and> (probe_reaches_override_seq pd \<longrightarrow> fst (eusb2_repeater_i2c_probe k pd tr) = - EINVAL)"
  using probe_block_rejects [OF pp od]
  by (simp add: eusb2_repeater_i2c_probe_def probe_reaches_override_seq_def Let_def
        split: option.splits)

text \<open>
  Where the length fits the 8-bit count (\<open>n < 128\<close>), the build without
  CONFIG_USB_NOTIFIER plays a plain override array of even length \<open>2n\<close> in
  \<open>eusb2_repeater_init\<close> as exactly \<open>n\<close> applications of \<open>eusb2_i2c_write_reg\<close>
  with mask \<open>0xFF\<close>, one for each (value, address) pair, in array order. In every
  build an array of odd length makes the probe fail, with \<open>-EINVAL\<close> when the probe
  got that far, without any call to the register map.
\<close>

lemma plain_override_plays:
  "(eusb2_repeater_i2c_probe k pd tr0 = (0, Some er, tr1) \<and> \<not> CONFIG_USB_NOTIFIER k
      \<and> param_override_seq_prop pd = Some seq \<and> length seq = 2 * n \<and> n < 128
     \<longrightarrow> tr1 = tr0 \<and> length (plain_pairs seq) = n
         \<and> eusb2_repeater_init k env er tr = Inr (0, write_masked_all env (plain_pairs seq) tr))
   \<and> (param_override_seq_prop pd' = Some seq' \<and> odd (length seq')
     \<longrightarrow> snd (eusb2_repeater_i2c_probe k' pd' tr') = (None, tr')
         \<and> (probe_reaches_override_seq pd' \<longrightarrow> fst (eusb2_repeater_i2c_probe k' pd' tr') = - EINVAL))"
proof (intro conjI impI; (elim conjE)?)
  assume p: "eusb2_repeater_i2c_probe k pd tr0 = (0, Some er, tr1)"
    and nn: "\<not> CONFIG_USB_NOTIFIER k"
    and pp: "param_override_seq_prop pd = Some seq"
    and len: "length seq = 2 * n" and n: "n < 128"
  have ev: "even (length seq)" and lt: "length seq < 256" using len n by simp_all
  note f = probe_plain_fields [OF p nn pp ev lt]
  show "tr1 = tr0" using f by simp
  show "length (plain_pairs seq) = n" using len by (simp add: plain_pairs_def)
  have u: "unat (of_nat (length seq) :: u8) = length seq" using lt by (simp add: unat_of_nat)
  have play: "eusb2_repeater_update_seq env seq (of_nat (length seq)) tr
                = Inr (write_masked_all env (plain_pairs seq) tr)"
    by (rule update_seq_plays) (simp_all add: u ev)
  have z: "(of_nat (length seq) :: u8) = 0 \<Longrightarrow> seq = []"
  proof -
    assume "(of_nat (length seq) :: u8) = 0"
    then have "unat (of_nat (length seq) :: u8) = 0" by simp
    with u show "seq = []" by simp
  qed
  show "eusb2_repeater_init k env er tr = Inr (0, write_masked_all env (plain_pairs seq) tr)"
    using f nn play z
    by (auto simp: eusb2_repeater_init_def plain_pairs_def write_masked_all_def)
next
  assume "param_override_seq_prop pd' = Some seq'" "odd (length seq')"
  then show "snd (eusb2_repeater_i2c_probe k' pd' tr') = (None, tr')"
    using probe_odd_rejected by blast
next
  assume "param_override_seq_prop pd' = Some seq'" "odd (length seq')"
    "probe_reaches_override_seq pd'"
  then show "fst (eusb2_repeater_i2c_probe k' pd' tr') = - EINVAL"
    using probe_odd_rejected by blast
qed

lemma plain_override_plays_example:
  "eusb2_repeater_i2c_probe k_plain (pd_ok NXP_REPEATER (Some [0xAA, 0x02, 0xBB, 0x05]) None) []
     = (0, Some er_plain4, [])
   \<and> \<not> CONFIG_USB_NOTIFIER k_plain
   \<and> length [0xAA, 0x02, 0xBB, 0x05 :: u8] = 2 * 2
   \<and> eusb2_repeater_init k_plain (\<lambda>n. (0, 0x11)) er_plain4 []
       = Inr (0, [(Regmap_read 0x02, (0, 0x11)), (Regmap_write 0x02 0xBB, (0, 0x11)),
                  (Regmap_read 0x05, (0, 0x11)), (Regmap_write 0x05 0xBB, (0, 0x11))])
   \<and> odd (length [1, 2, 3 :: u8])
   \<and> probe_reaches_override_seq (pd_ok TI_REPEATER (Some [1, 2, 3]) None)
   \<and> eusb2_repeater_i2c_probe k_plain (pd_ok TI_REPEATER (Some [1, 2, 3]) None) []
       = (- EINVAL, None, [])"
proof -
  have p: "eusb2_repeater_i2c_probe k_plain (pd_ok NXP_REPEATER (Some [0xAA, 0x02, 0xBB, 0x05]) None) []
     = (0, Some er_plain4, [])"
    by (simp add: eusb2_repeater_i2c_probe_def pd_ok_def k_plain_def probe_param_override_seq_def
          of_property_count_elems_of_size_def of_property_read_u8_array_def er_plain4_def)
  have nn: "\<not> CONFIG_USB_NOTIFIER k_plain" by (simp add: k_plain_def)
  have pr: "param_override_seq_prop (pd_ok NXP_REPEATER (Some [0xAA, 0x02, 0xBB, 0x05]) None)
              = Some [0xAA, 0x02, 0xBB, 0x05]"
    by (simp add: pd_ok_def)
  have pr': "param_override_seq_prop (pd_ok TI_REPEATER (Some [1, 2, 3]) None) = Some [1, 2, 3]"
    by (simp add: pd_ok_def)
  have re: "probe_reaches_override_seq (pd_ok TI_REPEATER (Some [1, 2, 3]) None)"
    by (simp add: probe_reaches_override_seq_def pd_ok_def)
  have w: "write_masked_all (\<lambda>n. (0, 0x11)) (plain_pairs [0xAA, 0x02, 0xBB, 0x05]) []
       = [(Regmap_read 0x02, (0, 0x11)), (Regmap_write 0x02 0xBB, (0, 0x11)),
          (Regmap_read 0x05, (0, 0x11)), (Regmap_write 0x05 0xBB, (0, 0x11))]"
    by (simp add: write_masked_all_def plain_pairs_def eusb2_i2c_write_reg_def
          eusb2_i2c_read_reg_def regmap_read_def regmap_write_def ext_call_def upt_rec)
  from plain_override_plays [where k = k_plain and pd = "pd_ok NXP_REPEATER (Some [0xAA, 0x02, 0xBB, 0x05]) None"
      and ?tr0.0 = "[]" and er = er_plain4 and ?tr1.0 = "[]" and seq = "[0xAA, 0x02, 0xBB, 0x05]"
      and n = 2 and env = "\<lambda>n. (0, 0x11)" and tr = "[]"
      and pd' = "pd_ok TI_REPEATER (Some [1, 2, 3]) None" and seq' = "[1, 2, 3]"
      and k' = k_plain and tr' = "[]"]
    p nn pr pr' re w
  show ?thesis by (simp add: prod_eq_iff)
qed

text \<open>
  C5. The code breaks the claim on a long array. The probe assigns the \<open>int\<close> number of
  elements to the 8-bit field \<open>param_override_seq_cnt\<close> without a range check. In the
  build without CONFIG_USB_NOTIFIER, a property of 256 bytes (128 pairs) passes the
  probe with the count 0 and \<open>eusb2_repeater_init\<close> touches no register; a property of
  258 bytes (129 pairs) is stored with the count 2, and \<open>eusb2_repeater_init\<close> applies
  one pair.
\<close>

theorem plain_override_truncated:
  "length (replicate 256 (1 :: u8)) = 2 * 128
   \<and> length (plain_pairs (replicate 256 1)) = 128
   \<and> attach_and_init k_plain (pd_ok NXP_REPEATER (Some (replicate 256 1)) None) env_ok
       = Inr (Inr (0, []))
   \<and> length (replicate 258 (1 :: u8)) = 2 * 129
   \<and> length (plain_pairs (replicate 258 1)) = 129
   \<and> attach_and_init k_plain (pd_ok NXP_REPEATER (Some (replicate 258 1)) None) env_ok
       = Inr (Inr (0, [(Regmap_read 1, (0, 0)), (Regmap_write 1 1, (0, 0))]))"
  by code_simp

subsection \<open>The report of the tuning registers\<close>

lemma show_loop_fails:
  "length tr = off + i \<Longrightarrow> i \<le> m \<Longrightarrow> m < n \<Longrightarrow>
   (\<forall>j<m. \<not> fst (env (off + j)) < 0) \<Longrightarrow> fst (env (off + m)) < 0 \<Longrightarrow>
     tune_show_loop env tbl n i str tr = (None, tr @ table_reads env tbl off i (Suc m))"
proof (induction env tbl n i str tr rule: tune_show_loop.induct)
  case (1 env tbl n i str tr)
  note len = \<open>length tr = off + i\<close> and im = \<open>i \<le> m\<close> and mn = \<open>m < n\<close>
    and ok = \<open>\<forall>j<m. \<not> fst (env (off + j)) < 0\<close> and bad = \<open>fst (env (off + m)) < 0\<close>
  have lt: "i < n" using im mn by simp
  obtain ret reg_val where r: "env (off + i) = (ret, reg_val)" by (cases "env (off + i)")
  show ?case
  proof (cases "i = m")
    case True
    with bad r have "ret < 0" by simp
    with lt r len True show ?thesis
      by (subst tune_show_loop.simps) (simp add: bus_defs table_reads_def)
  next
    case False
    with im have im': "i < m" by simp
    with ok r have nf: "\<not> ret < 0" by auto
    have rr: "regmap_read env (tbl ! i) tr = ((ret, reg_val), tr @ [(Regmap_read (tbl ! i), env (off + i))])"
      using r len by (simp add: bus_defs)
    have len': "length (tr @ [(Regmap_read (tbl ! i), env (off + i))]) = off + (i + 1)"
      using len by simp
    have im2: "i + 1 \<le> m" using im' by simp
    note ih = "1.IH" [OF lt refl rr [symmetric] refl nf len' im2 mn ok bad]
    have up: "[i..<Suc m] = i # [i + 1..<Suc m]" using im by (simp add: upt_conv_Cons)
    have step: "tune_show_loop env tbl n i str tr =
        tune_show_loop env tbl n (i + 1)
          (str @ ''  0x'' @ fmt_2x (unat (tbl ! i)) @ ''   0x'' @ fmt_2x (unat reg_val) @ nl)
          (tr @ [(Regmap_read (tbl ! i), env (off + i))])"
      by (subst tune_show_loop.simps) (simp add: lt rr nf)
    have app: "(tr @ [(Regmap_read (tbl ! i), env (off + i))]) @ table_reads env tbl off (i + 1) (Suc m)
        = tr @ table_reads env tbl off i (Suc m)"
      unfolding table_reads_def up by simp
    show ?thesis unfolding step ih app ..
  qed
qed

lemma show_loop_succeeds:
  "length tr = off + i \<Longrightarrow> i \<le> n \<Longrightarrow> (\<forall>j<n. \<not> fst (env (off + j)) < 0) \<Longrightarrow>
     \<exists>out. tune_show_loop env tbl n i str tr = (Some out, tr @ table_reads env tbl off i n)"
proof (induction env tbl n i str tr rule: tune_show_loop.induct)
  case (1 env tbl n i str tr)
  note len = \<open>length tr = off + i\<close> and le = \<open>i \<le> n\<close>
    and ok = \<open>\<forall>j<n. \<not> fst (env (off + j)) < 0\<close>
  show ?case
  proof (cases "i < n")
    case False
    then show ?thesis by (subst tune_show_loop.simps) (simp add: table_reads_def)
  next
    case lt: True
    obtain ret reg_val where r: "env (off + i) = (ret, reg_val)" by (cases "env (off + i)")
    with ok lt have nf: "\<not> ret < 0" by auto
    have rr: "regmap_read env (tbl ! i) tr = ((ret, reg_val), tr @ [(Regmap_read (tbl ! i), env (off + i))])"
      using r len by (simp add: bus_defs)
    have len': "length (tr @ [(Regmap_read (tbl ! i), env (off + i))]) = off + (i + 1)"
      using len by simp
    have le': "i + 1 \<le> n" using lt by simp
    note ih = "1.IH" [OF lt refl rr [symmetric] refl nf len' le' ok]
    have up: "[i..<n] = i # [i + 1..<n]" using lt by (simp add: upt_conv_Cons)
    have step: "tune_show_loop env tbl n i str tr =
        tune_show_loop env tbl n (i + 1)
          (str @ ''  0x'' @ fmt_2x (unat (tbl ! i)) @ ''   0x'' @ fmt_2x (unat reg_val) @ nl)
          (tr @ [(Regmap_read (tbl ! i), env (off + i))])"
      by (subst tune_show_loop.simps) (simp add: lt rr nf)
    have app: "(tr @ [(Regmap_read (tbl ! i), env (off + i))]) @ table_reads env tbl off (i + 1) n
        = tr @ table_reads env tbl off i n"
      unfolding table_reads_def up by simp
    from ih obtain out where
      "tune_show_loop env tbl n (i + 1)
          (str @ ''  0x'' @ fmt_2x (unat (tbl ! i)) @ ''   0x'' @ fmt_2x (unat reg_val) @ nl)
          (tr @ [(Regmap_read (tbl ! i), env (off + i))])
        = (Some out, (tr @ [(Regmap_read (tbl ! i), env (off + i))]) @ table_reads env tbl off (i + 1) n)"
      by blast
    then show ?thesis unfolding step app by blast
  qed
qed

lemma tune_table_length:
  "length (tune_table t) = (if repeater_type t = NXP_REPEATER then 17 else 12)"
  by (simp add: tune_table_def tune_map_nxp_def tune_map_ti_def)

lemma tune_show_by_table:
  "eusb2_repeater_tune_show env (Some t) buf tr =
     (case tune_show_loop env (tune_table t) (length (tune_table t)) 0
             (nl @ '' Address Value - ''
              @ (if repeater_type t \<noteq> TI_REPEATER then ''NXP'' else ''TI'') @ nl) tr of
        (None, tr) \<Rightarrow> (int (length failed_to_read_reg), failed_to_read_reg, tr)
      | (Some str, tr) \<Rightarrow> (int (length (str @ nl)), str @ nl, tr))"
proof -
  have "length tune_map_nxp = TUNE_MAX_NXP" "length tune_map_ti = TUNE_MAX_TI"
    by (simp_all add: tune_map_nxp_def tune_map_ti_def TUNE_MAX_NXP_def TUNE_MAX_TI_def)
  then show ?thesis
    by (simp add: eusb2_repeater_tune_show_def tune_table_def Let_def)
qed

text \<open>
  C8. \<open>eusb2_repeater_tune_show\<close> reads the table of the chip (17 addresses for NXP, 12
  for TI) in table order. When the read of entry \<open>m\<close> is the first to fail, that read is
  the last call, and the text returned is the message \<open>Failed to read reg\<close> and nothing
  else. When no read fails, all entries have been read.
\<close>

theorem report_aborts_on_failure:
  "length (tune_table t) = (if repeater_type t = NXP_REPEATER then 17 else 12)
   \<and> (m < length (tune_table t) \<and> (\<forall>j<m. \<not> fst (env (length tr + j)) < 0)
        \<and> fst (env (length tr + m)) < 0
      \<longrightarrow> eusb2_repeater_tune_show env (Some t) buf tr
            = (int (length failed_to_read_reg), failed_to_read_reg,
               tr @ table_reads env (tune_table t) (length tr) 0 (Suc m)))
   \<and> ((\<forall>j<length (tune_table t). \<not> fst (env (length tr + j)) < 0)
      \<longrightarrow> (\<exists>out. eusb2_repeater_tune_show env (Some t) buf tr
            = (int (length out), out,
               tr @ table_reads env (tune_table t) (length tr) 0 (length (tune_table t)))))"
proof (intro conjI impI; (elim conjE)?)
  show "length (tune_table t) = (if repeater_type t = NXP_REPEATER then 17 else 12)"
    by (rule tune_table_length)
next
  assume m: "m < length (tune_table t)" and ok: "\<forall>j<m. \<not> fst (env (length tr + j)) < 0"
    and bad: "fst (env (length tr + m)) < 0"
  have "tune_show_loop env (tune_table t) (length (tune_table t)) 0 str tr
          = (None, tr @ table_reads env (tune_table t) (length tr) 0 (Suc m))" for str
    by (rule show_loop_fails [OF _ _ m ok bad]) simp_all
  then show "eusb2_repeater_tune_show env (Some t) buf tr
            = (int (length failed_to_read_reg), failed_to_read_reg,
               tr @ table_reads env (tune_table t) (length tr) 0 (Suc m))"
    unfolding tune_show_by_table by simp
next
  assume ok: "\<forall>j<length (tune_table t). \<not> fst (env (length tr + j)) < 0"
  have "\<exists>out. tune_show_loop env (tune_table t) (length (tune_table t)) 0 str tr
          = (Some out, tr @ table_reads env (tune_table t) (length tr) 0 (length (tune_table t)))" for str
    by (rule show_loop_succeeds [OF _ _ ok]) simp_all
  then obtain out where
    "tune_show_loop env (tune_table t) (length (tune_table t)) 0
         (nl @ '' Address Value - ''
          @ (if repeater_type t \<noteq> TI_REPEATER then ''NXP'' else ''TI'') @ nl) tr
       = (Some out, tr @ table_reads env (tune_table t) (length tr) 0 (length (tune_table t)))"
    by blast
  then have "eusb2_repeater_tune_show env (Some t) buf tr
            = (int (length (out @ nl)), out @ nl,
               tr @ table_reads env (tune_table t) (length tr) 0 (length (tune_table t)))"
    unfolding tune_show_by_table by simp
  then show "\<exists>out. eusb2_repeater_tune_show env (Some t) buf tr
            = (int (length out), out,
               tr @ table_reads env (tune_table t) (length tr) 0 (length (tune_table t)))"
    by blast
qed

theorem report_aborts_on_failure_witness:
  "fst (env_fail_at 3 (- 5) 3) < 0
   \<and> eusb2_repeater_tune_show (env_fail_at 3 (- 5)) (Some ter_nxp) [] []
       = (19, ''Failed to read reg'' @ [CHR 0x0A],
          [(Regmap_read 0x01, (0, 0)), (Regmap_read 0x02, (0, 0)), (Regmap_read 0x03, (0, 0)),
           (Regmap_read 0x04, (- 5, 0))])
   \<and> (\<exists>out. eusb2_repeater_tune_show env_ok (Some ter_nxp) [] []
       = (int (length out), out, map (\<lambda>a. (Regmap_read a, (0, 0))) tune_map_nxp))"
proof -
  have tt: "tune_table ter_nxp = tune_map_nxp"
    by (simp add: tune_table_def ter_nxp_def eusb2_repeater_tune_buf_init_def)
  have m: "3 < length (tune_table ter_nxp)"
    by (simp add: tt tune_map_nxp_def)
  have ok: "\<forall>j<3. \<not> fst (env_fail_at 3 (- 5) (length ([]::event list) + j)) < 0"
    by (simp add: env_fail_at_def)
  have bad: "fst (env_fail_at 3 (- 5) (length ([]::event list) + 3)) < 0"
    by (simp add: env_fail_at_def)
  have ok': "\<forall>j<length (tune_table ter_nxp). \<not> fst (env_ok (length ([]::event list) + j)) < 0"
    by (simp add: env_ok_def)
  have r1: "[] @ table_reads (env_fail_at 3 (- 5)) (tune_table ter_nxp) (length ([]::event list)) 0 (Suc 3)
      = [(Regmap_read 0x01, (0, 0)), (Regmap_read 0x02, (0, 0)), (Regmap_read 0x03, (0, 0)),
         (Regmap_read 0x04, (- 5, 0))]"
    by (simp add: table_reads_def tt tune_map_nxp_def env_fail_at_def upt_rec)
  have r2: "[] @ table_reads env_ok (tune_table ter_nxp) (length ([]::event list)) 0
                 (length (tune_table ter_nxp))
      = map (\<lambda>a. (Regmap_read a, (0, 0))) tune_map_nxp"
    by (simp add: table_reads_def tt tune_map_nxp_def env_ok_def upt_rec)
  have a: "eusb2_repeater_tune_show (env_fail_at 3 (- 5)) (Some ter_nxp) [] []
       = (int (length failed_to_read_reg), failed_to_read_reg,
          [] @ table_reads (env_fail_at 3 (- 5)) (tune_table ter_nxp) (length ([]::event list)) 0 (Suc 3))"
    by (rule report_aborts_on_failure [where t = ter_nxp and m = 3 and env = "env_fail_at 3 (- 5)"
          and tr = "[]" and buf = "[]", THEN conjunct2, THEN conjunct1, THEN mp])
       (intro conjI m ok bad)
  have b: "\<exists>out. eusb2_repeater_tune_show env_ok (Some ter_nxp) [] []
       = (int (length out), out,
          [] @ table_reads env_ok (tune_table ter_nxp) (length ([]::event list)) 0
                 (length (tune_table ter_nxp)))"
    by (rule report_aborts_on_failure [where t = ter_nxp and m = 0 and env = env_ok
          and tr = "[]" and buf = "[]", THEN conjunct2, THEN conjunct2, THEN mp])
       (rule ok')
  from a [unfolded r1] b [unfolded r2] bad show ?thesis
    by (simp add: failed_to_read_reg_def nl_def)
qed

subsection \<open>Stores into the tuning buffer\<close>

lemma store_loop_miss:
  "int i < tune_buf_cnt t \<Longrightarrow> i < length (tune_buf t) \<Longrightarrow> fst (tune_buf t ! i) \<noteq> reg \<Longrightarrow>
     tune_store_loop env t reg val sz i tr = tune_store_loop env t reg val sz (i + 1) tr"
  by (cases "tune_buf t ! i") (subst tune_store_loop.simps, simp add: tune_buf_at_def)

lemma store_loop_hit:
  "int i < tune_buf_cnt t \<Longrightarrow> i < length (tune_buf t) \<Longrightarrow> fst (tune_buf t ! i) = reg \<Longrightarrow>
     tune_store_loop env t reg val sz i tr =
       Inr (store_result env sz tr,
            (if fst (env (length tr)) < 0 then t
             else t\<lparr>tune_buf := (tune_buf t)[i := (reg, val)]\<rparr>),
            tr @ store_events env reg val tr)"
  by (cases "tune_buf t ! i"; cases "env (length tr)"; cases "env (Suc (Suc (length tr)))")
     (subst tune_store_loop.simps,
      simp add: tune_buf_at_def bus_defs store_result_def store_events_def Let_def)

lemma store_loop_exit:
  "\<not> int i < tune_buf_cnt t \<Longrightarrow>
     tune_store_loop env t reg val sz i tr = tune_store_new env t reg val sz i tr"
  by (subst tune_store_loop.simps) simp

lemma store_new_explicit:
  "i < length (tune_buf t) \<Longrightarrow>
   tune_store_new env t reg val sz i tr =
     (if tune_buf_cnt t < 20 then
        Inr (store_result env sz tr,
             (if fst (env (length tr)) < 0 then t
              else if fst (env (length tr + 2)) < 0
                then t\<lparr>tune_buf := (tune_buf t)[i := (reg, val)]\<rparr>
              else t\<lparr>tune_buf := (tune_buf t)[i := (reg, val)],
                     tune_buf_cnt := tune_buf_cnt t + 1\<rparr>),
             tr @ store_events env reg val tr)
      else Inr (sz, t, tr))"
  by (cases "env (length tr)"; cases "env (Suc (Suc (length tr)))")
     (simp add: tune_store_new_def TUNE_BUF_COUNT_def bus_defs store_result_def
        store_events_def Let_def)

lemma store_loop_found:
  assumes inv: "tune_inv t" and i: "int i < tune_buf_cnt t" and hit: "fst (tune_buf t ! i) = reg"
  shows "i0 \<le> i \<Longrightarrow> (\<forall>j. i0 \<le> j \<and> j < i \<longrightarrow> fst (tune_buf t ! j) \<noteq> reg) \<Longrightarrow>
     tune_store_loop env t reg val sz i0 tr = tune_store_loop env t reg val sz i tr"
proof (induction "i - i0" arbitrary: i0)
  case 0
  then show ?case by simp
next
  case (Suc d)
  then have lt: "i0 < i" by simp
  with i inv have c: "int i0 < tune_buf_cnt t" and l: "i0 < length (tune_buf t)"
    by (simp_all add: tune_inv_def)
  from Suc.prems lt have ne: "fst (tune_buf t ! i0) \<noteq> reg" by simp
  have "tune_store_loop env t reg val sz (i0 + 1) tr = tune_store_loop env t reg val sz i tr"
    using Suc.hyps(2) Suc.prems lt by (intro Suc.hyps(1)) auto
  with store_loop_miss [OF c l ne] show ?case by simp
qed

lemma store_loop_absent:
  assumes inv: "tune_inv t"
  shows "i0 \<le> nat (tune_buf_cnt t) \<Longrightarrow>
     (\<forall>j. i0 \<le> j \<and> int j < tune_buf_cnt t \<longrightarrow> fst (tune_buf t ! j) \<noteq> reg) \<Longrightarrow>
     tune_store_loop env t reg val sz i0 tr =
       tune_store_new env t reg val sz (nat (tune_buf_cnt t)) tr"
proof (induction "nat (tune_buf_cnt t) - i0" arbitrary: i0)
  case 0
  then have e: "i0 = nat (tune_buf_cnt t)" by simp
  then have "\<not> int i0 < tune_buf_cnt t" using inv by (simp add: tune_inv_def)
  from store_loop_exit [OF this] e show ?case by simp
next
  case (Suc d)
  then have c: "int i0 < tune_buf_cnt t" by linarith
  with inv have l: "i0 < length (tune_buf t)" by (simp add: tune_inv_def)
  from Suc.prems c have ne: "fst (tune_buf t ! i0) \<noteq> reg" by simp
  have "tune_store_loop env t reg val sz (i0 + 1) tr =
          tune_store_new env t reg val sz (nat (tune_buf_cnt t)) tr"
    using Suc.hyps(2) Suc.prems c by (intro Suc.hyps(1)) auto
  with store_loop_miss [OF c l ne] show ?case by simp
qed


lemma tune_store_present:
  assumes inv: "tune_inv t" and i: "int i < tune_buf_cnt t" and hit: "fst (tune_buf t ! i) = reg"
    and first: "\<forall>j<i. fst (tune_buf t ! j) \<noteq> reg"
  shows "eusb2_repeater_tune_store env (Some t) reg val sz tr =
           Inr (store_result env sz tr,
                Some (if fst (env (length tr)) < 0 then t
                      else t\<lparr>tune_buf := (tune_buf t)[i := (reg, val)]\<rparr>),
                tr @ store_events env reg val tr)"
proof -
  have l: "i < length (tune_buf t)" using inv i by (simp add: tune_inv_def)
  have "tune_store_loop env t reg val sz 0 tr = tune_store_loop env t reg val sz i tr"
    by (rule store_loop_found [OF inv i hit]) (simp_all add: first)
  then show ?thesis
    by (simp add: eusb2_repeater_tune_store_def store_loop_hit [OF i l hit])
qed

lemma tune_store_absent:
  assumes inv: "tune_inv t"
    and absent: "\<forall>j. int j < tune_buf_cnt t \<longrightarrow> fst (tune_buf t ! j) \<noteq> reg"
  shows "eusb2_repeater_tune_store env (Some t) reg val sz tr =
     (if tune_buf_cnt t < 20 then
        Inr (store_result env sz tr,
             Some (if fst (env (length tr)) < 0 then t
                   else if fst (env (length tr + 2)) < 0
                     then t\<lparr>tune_buf := (tune_buf t)[nat (tune_buf_cnt t) := (reg, val)]\<rparr>
                   else t\<lparr>tune_buf := (tune_buf t)[nat (tune_buf_cnt t) := (reg, val)],
                          tune_buf_cnt := tune_buf_cnt t + 1\<rparr>),
             tr @ store_events env reg val tr)
      else Inr (sz, Some t, tr))"
proof -
  have a: "tune_store_loop env t reg val sz 0 tr =
             tune_store_new env t reg val sz (nat (tune_buf_cnt t)) tr"
    by (rule store_loop_absent [OF inv]) (simp_all add: absent)
  show ?thesis
  proof (cases "tune_buf_cnt t < 20")
    case True
    then have "nat (tune_buf_cnt t) < length (tune_buf t)" using inv by (simp add: tune_inv_def)
    from store_new_explicit [OF this] a True show ?thesis
      by (simp add: eusb2_repeater_tune_store_def)
  next
    case False
    with a show ?thesis
      by (simp add: eusb2_repeater_tune_store_def tune_store_new_def TUNE_BUF_COUNT_def)
  qed
qed

lemma first_hit:
  assumes "\<exists>i. int i < c \<and> P i"
  obtains i where "int i < c" "P i" "\<forall>j<i. \<not> P j"
proof -
  define i where "i = (LEAST i. int i < c \<and> P i)"
  from assms have a: "int i < c \<and> P i" unfolding i_def by (rule LeastI_ex)
  have "\<not> P j" if "j < i" for j
  proof
    assume "P j"
    moreover from that a have "int j < c" by simp
    ultimately have "i \<le> j" unfolding i_def by (intro Least_le) simp
    with that show False by simp
  qed
  with a that show thesis by blast
qed

lemma tune_store_inv:
  assumes inv: "tune_inv t"
  shows "\<exists>ret t' tr'. eusb2_repeater_tune_store env (Some t) reg val sz tr = Inr (ret, Some t', tr')
           \<and> tune_inv t'"
proof (cases "\<exists>i. int i < tune_buf_cnt t \<and> fst (tune_buf t ! i) = reg")
  case True
  then obtain i where i: "int i < tune_buf_cnt t" and hit: "fst (tune_buf t ! i) = reg"
    and first: "\<forall>j<i. fst (tune_buf t ! j) \<noteq> reg"
    by (rule first_hit)
  from tune_store_present [OF inv i hit first] inv show ?thesis
    by (auto simp: tune_inv_def)
next
  case False
  then have "\<forall>j. int j < tune_buf_cnt t \<longrightarrow> fst (tune_buf t ! j) \<noteq> reg" by blast
  from tune_store_absent [OF inv this] inv show ?thesis
    by (auto simp: tune_inv_def)
qed

lemma tune_store_calls_inv:
  "tune_inv t \<Longrightarrow>
     \<exists>rets t' tr'. tune_store_calls env (Some t) calls tr = Inr (rets, Some t', tr') \<and> tune_inv t'"
proof (induction calls arbitrary: t tr)
  case Nil
  then show ?case by simp
next
  case (Cons c calls)
  obtain reg val sz where c: "c = (reg, val, sz)" by (cases c)
  from tune_store_inv [OF Cons.prems] obtain ret t1 tr1 where
    s: "eusb2_repeater_tune_store env (Some t) reg val sz tr = Inr (ret, Some t1, tr1)"
    and i1: "tune_inv t1" by blast
  from Cons.IH [OF i1] obtain rets t' tr' where
    "tune_store_calls env (Some t1) calls tr1 = Inr (rets, Some t', tr')" "tune_inv t'" by blast
  with s c show ?case by simp
qed

lemma ter_nxp_inv: "tune_inv ter_nxp"
  by (simp add: tune_inv_def ter_nxp_def eusb2_repeater_tune_buf_init_def TUNE_BUF_COUNT_def)

lemma ter_one_inv: "tune_inv ter_one"
  by (simp add: tune_inv_def ter_one_def ter_nxp_def eusb2_repeater_tune_buf_init_def
        TUNE_BUF_COUNT_def)

lemma ter_full_inv: "tune_inv ter_full"
  by (simp add: tune_inv_def ter_full_def)

lemma ter_full_absent: "\<forall>j<20. fst (tune_buf ter_full ! j) \<noteq> (0x30 :: u8)"
proof (intro allI impI)
  fix j :: nat assume j: "j < 20"
  have "unat (of_nat j :: u8) = j" using j by (simp add: unat_of_nat)
  then have "(of_nat j :: u8) \<noteq> 0x30" using j by auto
  with j show "fst (tune_buf ter_full ! j) \<noteq> (0x30 :: u8)" by (simp add: ter_full_def)
qed

text \<open>
  C7, as the claim states it, fails for the update of an address already present: when
  the register write of the second store fails, the entry keeps its value 1 and the
  store returns -5.
\<close>

theorem tune_store_value_kept:
  "tune_store_calls (env_fail_at 3 (- 5)) (Some ter_nxp) [(4, 1, 4), (4, 7, 4)] []
     = Inr ([4, - 5], Some ter_one,
            [(Regmap_write 4 1, (0, 0)), (Usleep_range 1 2, (0, 0)), (Regmap_read 4, (0, 0)),
             (Regmap_write 4 7, (- 5, 0))])
   \<and> tune_buf ter_one ! 0 = (4, 1)"
  by code_simp

text \<open>
  C7, amended. Stores that start from an empty buffer never fail on an index and leave a
  count between 0 and 20. A store to an address already present, at its first index
  \<open>i\<close>, never changes the count, and sets the value of entry \<open>i\<close> when its register
  write succeeds; when the write fails the entry stays as it was and the store returns
  the error code of the write. In both cases the return value is \<open>store_result\<close>. A
  store of a new address into a buffer of 20 entries changes neither the device nor the
  log and returns \<open>sz\<close>.
\<close>

theorem tune_buffer_bounded:
  "(tune_buf_cnt t0 = 0 \<and> length (tune_buf t0) = 20
      \<longrightarrow> (\<exists>rets t' tr'. tune_store_calls env (Some t0) calls tr = Inr (rets, Some t', tr')
             \<and> 0 \<le> tune_buf_cnt t' \<and> tune_buf_cnt t' \<le> 20))
   \<and> (tune_inv t \<and> int i < tune_buf_cnt t \<and> fst (tune_buf t ! i) = reg
        \<and> (\<forall>j<i. fst (tune_buf t ! j) \<noteq> reg)
      \<longrightarrow> (\<exists>ret t' tr'. eusb2_repeater_tune_store env (Some t) reg val sz tr = Inr (ret, Some t', tr')
             \<and> tune_buf_cnt t' = tune_buf_cnt t
             \<and> tune_buf t' = (if fst (env (length tr)) < 0 then tune_buf t
                              else (tune_buf t)[i := (reg, val)])
             \<and> ret = store_result env sz tr
             \<and> (fst (env (length tr)) < 0 \<longrightarrow> ret = fst (env (length tr)))))
   \<and> (tune_inv t \<and> tune_buf_cnt t = 20 \<and> (\<forall>j<20. fst (tune_buf t ! j) \<noteq> reg)
      \<longrightarrow> eusb2_repeater_tune_store env (Some t) reg val sz tr = Inr (sz, Some t, tr))"
proof (intro conjI impI; (elim conjE)?)
  assume "tune_buf_cnt t0 = 0" "length (tune_buf t0) = 20"
  then have "tune_inv t0" by (simp add: tune_inv_def)
  from tune_store_calls_inv [OF this]
  show "\<exists>rets t' tr'. tune_store_calls env (Some t0) calls tr = Inr (rets, Some t', tr')
             \<and> 0 \<le> tune_buf_cnt t' \<and> tune_buf_cnt t' \<le> 20"
    by (fastforce simp: tune_inv_def)
next
  assume inv: "tune_inv t" and i: "int i < tune_buf_cnt t" and hit: "fst (tune_buf t ! i) = reg"
    and first: "\<forall>j<i. fst (tune_buf t ! j) \<noteq> reg"
  from tune_store_present [OF inv i hit first]
  show "\<exists>ret t' tr'. eusb2_repeater_tune_store env (Some t) reg val sz tr = Inr (ret, Some t', tr')
             \<and> tune_buf_cnt t' = tune_buf_cnt t
             \<and> tune_buf t' = (if fst (env (length tr)) < 0 then tune_buf t
                              else (tune_buf t)[i := (reg, val)])
             \<and> ret = store_result env sz tr
             \<and> (fst (env (length tr)) < 0 \<longrightarrow> ret = fst (env (length tr)))"
    by (simp add: store_result_def)
next
  assume inv: "tune_inv t" and full: "tune_buf_cnt t = 20"
    and absent: "\<forall>j<20. fst (tune_buf t ! j) \<noteq> reg"
  then have "\<forall>j. int j < tune_buf_cnt t \<longrightarrow> fst (tune_buf t ! j) \<noteq> reg" by simp
  from tune_store_absent [OF inv this] full
  show "eusb2_repeater_tune_store env (Some t) reg val sz tr = Inr (sz, Some t, tr)" by simp
qed

theorem tune_buffer_bounded_witness:
  "tune_buf_cnt ter_nxp = 0 \<and> length (tune_buf ter_nxp) = 20
   \<and> (\<exists>rets t' tr'. tune_store_calls env_ok (Some ter_nxp) [(4, 1, 4), (5, 2, 4), (4, 7, 4)] []
          = Inr (rets, Some t', tr') \<and> 0 \<le> tune_buf_cnt t' \<and> tune_buf_cnt t' \<le> 20)
   \<and> tune_inv ter_one \<and> int 0 < tune_buf_cnt ter_one \<and> fst (tune_buf ter_one ! 0) = 4
   \<and> (\<exists>ret t' tr'. eusb2_repeater_tune_store env_ok (Some ter_one) 4 7 4 [] = Inr (ret, Some t', tr')
          \<and> tune_buf_cnt t' = 1 \<and> tune_buf t' = (tune_buf ter_one)[0 := (4, 7)] \<and> ret = 4)
   \<and> fst (env_fail_at 0 (- 5) 0) < 0
   \<and> (\<exists>ret t' tr'. eusb2_repeater_tune_store (env_fail_at 0 (- 5)) (Some ter_one) 4 7 4 []
            = Inr (ret, Some t', tr')
          \<and> tune_buf_cnt t' = 1 \<and> tune_buf t' = tune_buf ter_one \<and> ret = - 5)
   \<and> tune_inv ter_full \<and> tune_buf_cnt ter_full = 20
   \<and> eusb2_repeater_tune_store env_ok (Some ter_full) 0x30 1 4 [] = Inr (4, Some ter_full, [])"
proof -
  have a0: "tune_buf_cnt ter_nxp = 0 \<and> length (tune_buf ter_nxp) = 20"
    by (simp add: ter_nxp_def eusb2_repeater_tune_buf_init_def TUNE_BUF_COUNT_def)
  have a: "\<exists>rets t' tr'. tune_store_calls env_ok (Some ter_nxp) [(4, 1, 4), (5, 2, 4), (4, 7, 4)] []
          = Inr (rets, Some t', tr') \<and> 0 \<le> tune_buf_cnt t' \<and> tune_buf_cnt t' \<le> 20"
    by (rule tune_buffer_bounded [where ?t0.0 = ter_nxp and env = env_ok and tr = "[]"
          and calls = "[(4, 1, 4), (5, 2, 4), (4, 7, 4)]", THEN conjunct1, THEN mp]) (rule a0)
  have b0: "int 0 < tune_buf_cnt ter_one \<and> fst (tune_buf ter_one ! 0) = 4"
    by (simp add: ter_one_def ter_nxp_def eusb2_repeater_tune_buf_init_def TUNE_BUF_COUNT_def)
  have b1: "tune_inv ter_one \<and> int 0 < tune_buf_cnt ter_one \<and> fst (tune_buf ter_one ! 0) = 4
        \<and> (\<forall>j<0. fst (tune_buf ter_one ! j) \<noteq> 4)"
    using ter_one_inv b0 by simp
  have b: "\<exists>ret t' tr'. eusb2_repeater_tune_store env_ok (Some ter_one) 4 7 4 [] = Inr (ret, Some t', tr')
          \<and> tune_buf_cnt t' = tune_buf_cnt ter_one
          \<and> tune_buf t' = (if fst (env_ok (length ([]::event list))) < 0 then tune_buf ter_one
                           else (tune_buf ter_one)[0 := (4, 7)])
          \<and> ret = store_result env_ok 4 []
          \<and> (fst (env_ok (length ([]::event list))) < 0
               \<longrightarrow> ret = fst (env_ok (length ([]::event list))))"
    by (rule tune_buffer_bounded [where t = ter_one and i = 0 and reg = 4 and val = 7 and sz = 4
          and env = env_ok and tr = "[]", THEN conjunct2, THEN conjunct1, THEN mp]) (rule b1)
  have sr: "store_result env_ok 4 [] = 4" by (simp add: store_result_def env_ok_def)
  have b': "\<exists>ret t' tr'. eusb2_repeater_tune_store env_ok (Some ter_one) 4 7 4 []
            = Inr (ret, Some t', tr')
          \<and> tune_buf_cnt t' = tune_buf_cnt ter_one
          \<and> tune_buf t' = (if fst (env_ok (length ([]::event list))) < 0 then tune_buf ter_one
                           else (tune_buf ter_one)[0 := (4, 7)])
          \<and> ret = 4"
    using b unfolding sr by blast
  have bad: "fst (env_fail_at 0 (- 5) 0) < 0" by (simp add: env_fail_at_def)
  have f: "\<exists>ret t' tr'. eusb2_repeater_tune_store (env_fail_at 0 (- 5)) (Some ter_one) 4 7 4 []
            = Inr (ret, Some t', tr')
          \<and> tune_buf_cnt t' = tune_buf_cnt ter_one
          \<and> tune_buf t' = (if fst (env_fail_at 0 (- 5) (length ([]::event list))) < 0
                           then tune_buf ter_one else (tune_buf ter_one)[0 := (4, 7)])
          \<and> ret = store_result (env_fail_at 0 (- 5)) 4 []
          \<and> (fst (env_fail_at 0 (- 5) (length ([]::event list))) < 0
               \<longrightarrow> ret = fst (env_fail_at 0 (- 5) (length ([]::event list))))"
    by (rule tune_buffer_bounded [where t = ter_one and i = 0 and reg = 4 and val = 7 and sz = 4
          and env = "env_fail_at 0 (- 5)" and tr = "[]", THEN conjunct2, THEN conjunct1, THEN mp])
       (rule b1)
  have f': "\<exists>ret t' tr'. eusb2_repeater_tune_store (env_fail_at 0 (- 5)) (Some ter_one) 4 7 4 []
            = Inr (ret, Some t', tr')
          \<and> tune_buf_cnt t' = 1 \<and> tune_buf t' = tune_buf ter_one \<and> ret = - 5"
    using f by (auto simp: env_fail_at_def ter_one_def)
  have cnt1: "tune_buf_cnt ter_one = 1" by (simp add: ter_one_def)
  have c0: "tune_inv ter_full \<and> tune_buf_cnt ter_full = 20
        \<and> (\<forall>j<20. fst (tune_buf ter_full ! j) \<noteq> 0x30)"
    using ter_full_inv ter_full_absent by (simp add: ter_full_def)
  have c: "eusb2_repeater_tune_store env_ok (Some ter_full) 0x30 1 4 [] = Inr (4, Some ter_full, [])"
    by (rule tune_buffer_bounded [where t = ter_full and reg = "0x30" and val = 1 and sz = 4
          and env = env_ok and tr = "[]", THEN conjunct2, THEN conjunct2, THEN mp]) (rule c0)
  have b'': "\<exists>ret t' tr'. eusb2_repeater_tune_store env_ok (Some ter_one) 4 7 4 []
            = Inr (ret, Some t', tr')
          \<and> tune_buf_cnt t' = 1 \<and> tune_buf t' = (tune_buf ter_one)[0 := (4, 7)] \<and> ret = 4"
    using b' cnt1 by (auto simp: env_ok_def)
  from a0 a b0 b'' bad f' c c0 ter_one_inv show ?thesis by blast
qed

text \<open>
  C3, as the claim states it, fails: a read-back that fails is not tried again and its
  error code, -5, is what the store returns; a register write that fails is not tried
  again either.
\<close>

theorem tune_store_fails_call:
  "eusb2_repeater_tune_store (env_fail_at 2 (- 5)) (Some ter_nxp) 4 0x11 5 []
     = Inr (- 5, Some (ter_nxp\<lparr>tune_buf := (tune_buf ter_nxp)[0 := (4, 0x11)]\<rparr>),
            [(Regmap_write 4 0x11, (0, 0)), (Usleep_range 1 2, (0, 0)),
             (Regmap_read 4, (- 5, 0))])
   \<and> eusb2_repeater_tune_store (env_fail_at 0 (- 5)) (Some ter_nxp) 4 0x11 5 []
     = Inr (- 5, Some ter_nxp, [(Regmap_write 4 0x11, (- 5, 0))])"
  by code_simp


text \<open>
  C3, amended. A store that is accepted (the address is present, or the buffer has room)
  writes the register once. When the write fails the store returns its error code and
  makes no other call. Otherwise it pauses and reads the register back once; no further
  write follows, and the store returns the error code of the read when the read failed
  and \<open>sz\<close> when it succeeded.
\<close>

theorem tune_store_write_through:
  "tune_inv t \<and> ((\<exists>i. int i < tune_buf_cnt t \<and> fst (tune_buf t ! i) = reg) \<or> tune_buf_cnt t < 20)
     \<longrightarrow> (\<exists>t'. eusb2_repeater_tune_store env (Some t) reg val sz tr =
                 Inr (store_result env sz tr, Some t', tr @ store_events env reg val tr))"
proof (intro impI, elim conjE)
  assume inv: "tune_inv t"
    and acc: "(\<exists>i. int i < tune_buf_cnt t \<and> fst (tune_buf t ! i) = reg) \<or> tune_buf_cnt t < 20"
  show "\<exists>t'. eusb2_repeater_tune_store env (Some t) reg val sz tr =
                 Inr (store_result env sz tr, Some t', tr @ store_events env reg val tr)"
  proof (cases "\<exists>i. int i < tune_buf_cnt t \<and> fst (tune_buf t ! i) = reg")
    case True
    then obtain i where i: "int i < tune_buf_cnt t" and hit: "fst (tune_buf t ! i) = reg"
      and first: "\<forall>j<i. fst (tune_buf t ! j) \<noteq> reg"
      by (rule first_hit)
    from tune_store_present [OF inv i hit first] show ?thesis by blast
  next
    case False
    with acc have room: "tune_buf_cnt t < 20" by blast
    from False have "\<forall>j. int j < tune_buf_cnt t \<longrightarrow> fst (tune_buf t ! j) \<noteq> reg" by blast
    from tune_store_absent [OF inv this] room show ?thesis by simp
  qed
qed

theorem tune_store_write_through_witness:
  "tune_inv ter_nxp \<and> tune_buf_cnt ter_nxp < 20
   \<and> (\<exists>t'. eusb2_repeater_tune_store env_ok (Some ter_nxp) 4 0x11 5 []
        = Inr (5, Some t', [(Regmap_write 4 0x11, (0, 0)), (Usleep_range 1 2, (0, 0)),
                            (Regmap_read 4, (0, 0))]))"
proof -
  have c: "tune_buf_cnt ter_nxp < 20"
    by (simp add: ter_nxp_def eusb2_repeater_tune_buf_init_def)
  have h: "tune_inv ter_nxp
      \<and> ((\<exists>i. int i < tune_buf_cnt ter_nxp \<and> fst (tune_buf ter_nxp ! i) = 4)
           \<or> tune_buf_cnt ter_nxp < 20)"
    using ter_nxp_inv c by simp
  have e: "\<exists>t'. eusb2_repeater_tune_store env_ok (Some ter_nxp) 4 0x11 5 []
        = Inr (store_result env_ok 5 [], Some t', [] @ store_events env_ok 4 0x11 [])"
    by (rule tune_store_write_through [where t = ter_nxp and reg = 4 and val = "0x11" and sz = 5
          and env = env_ok and tr = "[]", THEN mp]) (rule h)
  have r: "store_result env_ok 5 [] = 5"
    "[] @ store_events env_ok 4 0x11 [] = [(Regmap_write 4 0x11, (0, 0)), (Usleep_range 1 2, (0, 0)),
                            (Regmap_read 4, (0, 0))]"
    by (simp_all add: store_result_def store_events_def env_ok_def)
  from e [unfolded r] ter_nxp_inv c show ?thesis by simp
qed

subsection \<open>Applying the tuning buffer\<close>

lemma set_write_skips:
  "i < length (tune_buf t) \<Longrightarrow> tune_skip t (tune_buf t ! i) \<Longrightarrow>
     tune_set_write env t i 0 tr = Inr tr"
  by (subst tune_set_write.simps) (simp add: tune_buf_at_def tune_skip_def)

lemma set_write_step:
  "i < length (tune_buf t) \<Longrightarrow> \<not> tune_skip t (tune_buf t ! i) \<Longrightarrow> j < 3 \<Longrightarrow>
     tune_set_write env t i j tr =
       (if fst (env (length tr)) < 0
        then tune_set_write env t i (j + 1)
               (tr @ [(Regmap_write (fst (tune_buf t ! i)) (snd (tune_buf t ! i)), env (length tr))])
        else Inr (tr @ [(Regmap_write (fst (tune_buf t ! i)) (snd (tune_buf t ! i)), env (length tr))]))"
  by (cases "tune_buf t ! i", subst tune_set_write.simps)
     (auto simp: tune_buf_at_def tune_skip_def bus_defs)

lemma set_write_stop:
  "tune_set_write env t i 3 tr = Inr tr"
  by (subst tune_set_write.simps) simp

lemma set_write_retries_from:
  assumes l: "i < length (tune_buf t)" and ns: "\<not> tune_skip t (tune_buf t ! i)"
  shows "j \<le> 3 \<Longrightarrow>
     \<exists>ws. tune_set_write env t i j tr = Inr (tr @ ws)
       \<and> length ws \<le> 3 - j \<and> (j < 3 \<longrightarrow> ws \<noteq> [])
       \<and> list_all (\<lambda>w. fst w = Regmap_write (fst (tune_buf t ! i)) (snd (tune_buf t ! i))) ws
       \<and> list_all (\<lambda>w. fst (snd w) < 0) (butlast ws)
       \<and> (length ws < 3 - j \<longrightarrow> \<not> fst (snd (last ws)) < 0)"
proof (induction "3 - j" arbitrary: j tr)
  case 0
  then have "j = 3" by simp
  then show ?case by (simp add: set_write_stop)
next
  case (Suc d)
  then have j: "j < 3" by simp
  let ?w = "(Regmap_write (fst (tune_buf t ! i)) (snd (tune_buf t ! i)), env (length tr))"
  note step = set_write_step [OF l ns j, of env tr]
  show ?case
  proof (cases "fst (env (length tr)) < 0")
    case False
    with step have "tune_set_write env t i j tr = Inr (tr @ [?w])" by simp
    moreover have "length [?w] \<le> 3 - j" using j by simp
    ultimately show ?thesis using False by (intro exI [of _ "[?w]"]) simp
  next
    case True
    have "d = 3 - (j + 1)" "j + 1 \<le> 3" using Suc.hyps(2) j by simp_all
    from Suc.hyps(1) [OF this, of "tr @ [?w]"] obtain ws where
      r: "tune_set_write env t i (j + 1) (tr @ [?w]) = Inr ((tr @ [?w]) @ ws)"
      and n: "length ws \<le> 3 - (j + 1)" and ne: "j + 1 < 3 \<longrightarrow> ws \<noteq> []"
      and a: "list_all (\<lambda>w. fst w = Regmap_write (fst (tune_buf t ! i)) (snd (tune_buf t ! i))) ws"
      and f: "list_all (\<lambda>w. fst (snd w) < 0) (butlast ws)"
      and s: "length ws < 3 - (j + 1) \<longrightarrow> \<not> fst (snd (last ws)) < 0"
      by blast
    from step True r have e: "tune_set_write env t i j tr = Inr (tr @ (?w # ws))" by simp
    have n': "length (?w # ws) \<le> 3 - j" using n j by simp
    have a': "list_all (\<lambda>w. fst w = Regmap_write (fst (tune_buf t ! i)) (snd (tune_buf t ! i))) (?w # ws)"
      using a by simp
    have f': "list_all (\<lambda>w. fst (snd w) < 0) (butlast (?w # ws))"
      using f True by simp
    have s': "length (?w # ws) < 3 - j \<longrightarrow> \<not> fst (snd (last (?w # ws))) < 0"
    proof
      assume "length (?w # ws) < 3 - j"
      then have "length ws < 3 - (j + 1)" by simp
      moreover from this have "ws \<noteq> []" using ne by simp
      ultimately show "\<not> fst (snd (last (?w # ws))) < 0" using s by simp
    qed
    from e n' a' f' s' show ?thesis by (intro exI [of _ "?w # ws"]) simp
  qed
qed

lemma set_write_retries:
  assumes l: "i < length (tune_buf t)" and ns: "\<not> tune_skip t (tune_buf t ! i)"
  shows "\<exists>ws. tune_set_write env t i 0 tr = Inr (tr @ ws)
           \<and> filter is_write ws = ws \<and> retried_write (tune_buf t ! i) ws"
proof -
  from set_write_retries_from [OF l ns, of 0 env tr] obtain ws where
    r: "tune_set_write env t i 0 tr = Inr (tr @ ws)" and n: "length ws \<le> 3" and ne: "ws \<noteq> []"
    and a: "list_all (\<lambda>w. fst w = Regmap_write (fst (tune_buf t ! i)) (snd (tune_buf t ! i))) ws"
    and f: "list_all (\<lambda>w. fst (snd w) < 0) (butlast ws)"
    and s: "length ws < 3 \<longrightarrow> \<not> fst (snd (last ws)) < 0"
    by auto
  from a have "filter is_write ws = ws"
    by (induction ws) (simp_all add: is_write_def)
  with r n ne a f s show ?thesis by (auto simp: retried_write_def)
qed

lemma set_read_step:
  "i < length (tune_buf t) \<Longrightarrow> j < 3 \<Longrightarrow>
     tune_set_read env t i j tr =
       (if fst (env (length tr)) < 0
        then tune_set_read env t i (j + 1) (tr @ [(Regmap_read (fst (tune_buf t ! i)), env (length tr))])
        else Inr (tr @ [(Regmap_read (fst (tune_buf t ! i)), env (length tr))]))"
  by (cases "tune_buf t ! i"; cases "env (length tr)")
     (subst tune_set_read.simps, simp add: tune_buf_at_def bus_defs)

lemma set_read_stop:
  "tune_set_read env t i 3 tr = Inr tr"
  by (subst tune_set_read.simps) simp

lemma set_read_no_write_from:
  assumes l: "i < length (tune_buf t)"
  shows "j \<le> 3 \<Longrightarrow> \<exists>rs. tune_set_read env t i j tr = Inr (tr @ rs) \<and> filter is_write rs = []"
proof (induction "3 - j" arbitrary: j tr)
  case 0
  then have "j = 3" by simp
  then show ?case by (simp add: set_read_stop)
next
  case (Suc d)
  then have j: "j < 3" by simp
  let ?r = "(Regmap_read (fst (tune_buf t ! i)), env (length tr))"
  note step = set_read_step [OF l j, of env tr]
  have nw: "\<not> is_write ?r" by (simp add: is_write_def)
  show ?case
  proof (cases "fst (env (length tr)) < 0")
    case False
    with step have "tune_set_read env t i j tr = Inr (tr @ [?r])" by simp
    with nw show ?thesis by (intro exI [of _ "[?r]"]) simp
  next
    case True
    have "d = 3 - (j + 1)" "j + 1 \<le> 3" using Suc.hyps(2) j by simp_all
    from Suc.hyps(1) [OF this, of "tr @ [?r]"] obtain rs where
      r: "tune_set_read env t i (j + 1) (tr @ [?r]) = Inr ((tr @ [?r]) @ rs)"
      and f: "filter is_write rs = []"
      by blast
    from step True r have "tune_set_read env t i j tr = Inr (tr @ (?r # rs))" by simp
    with nw f show ?thesis by (intro exI [of _ "?r # rs"]) simp
  qed
qed

lemma set_read_no_write:
  assumes l: "i < length (tune_buf t)"
  shows "\<exists>rs. tune_set_read env t i 0 tr = Inr (tr @ rs) \<and> filter is_write rs = []"
  using set_read_no_write_from [OF l, of 0 env tr] by simp


lemma set_write_entry:
  assumes l: "i < length (tune_buf t)"
  shows "\<exists>ws. tune_set_write env t i 0 tr = Inr (tr @ ws) \<and> filter is_write ws = ws
           \<and> (if tune_skip t (tune_buf t ! i) then ws = []
               else retried_write (tune_buf t ! i) ws)"
proof (cases "tune_skip t (tune_buf t ! i)")
  case True
  from set_write_skips [OF l True, of env tr] True show ?thesis by simp
next
  case False
  from set_write_retries [OF l False, of env tr] False show ?thesis by simp
qed

lemma set_loop_from:
  assumes inv: "tune_inv t"
  shows "i \<le> nat (tune_buf_cnt t) \<Longrightarrow>
     \<exists>tr' chunks. tune_set_loop env t i tr = Inr (tr @ tr')
       \<and> length chunks = nat (tune_buf_cnt t) - i
       \<and> filter is_write tr' = concat chunks
       \<and> (\<forall>k < nat (tune_buf_cnt t) - i.
             if tune_skip t (tune_buf t ! (i + k)) then chunks ! k = []
             else retried_write (tune_buf t ! (i + k)) (chunks ! k))"
proof (induction "nat (tune_buf_cnt t) - i" arbitrary: i tr)
  case 0
  then have "\<not> int i < tune_buf_cnt t" by simp
  then have "tune_set_loop env t i tr = Inr tr" by (subst tune_set_loop.simps) simp
  with 0 show ?case by (intro exI [of _ "[]"]) simp
next
  case (Suc d)
  then have c: "int i < tune_buf_cnt t" by linarith
  with inv have l: "i < length (tune_buf t)" by (simp add: tune_inv_def)
  from set_write_entry [OF l, of env tr] obtain ws where
    w: "tune_set_write env t i 0 tr = Inr (tr @ ws)" and fw: "filter is_write ws = ws"
    and pw: "if tune_skip t (tune_buf t ! i) then ws = [] else retried_write (tune_buf t ! i) ws"
    by blast
  let ?u1 = "(Usleep_range 1 10, (0, 0)) :: event" and ?u2 = "(Usleep_range 1 2, (0, 0)) :: event"
  from set_read_no_write [OF l, of env "tr @ ws @ [?u1]"] obtain rs where
    r: "tune_set_read env t i 0 (tr @ ws @ [?u1]) = Inr ((tr @ ws @ [?u1]) @ rs)"
    and fr: "filter is_write rs = []"
    by blast
  have "d = nat (tune_buf_cnt t) - (i + 1)" "i + 1 \<le> nat (tune_buf_cnt t)"
    using Suc.hyps(2) c by simp_all
  from Suc.hyps(1) [OF this, of "tr @ ws @ [?u1] @ rs @ [?u2]"] obtain tr' chunks where
    rest: "tune_set_loop env t (i + 1) (tr @ ws @ [?u1] @ rs @ [?u2])
             = Inr ((tr @ ws @ [?u1] @ rs @ [?u2]) @ tr')"
    and lc: "length chunks = nat (tune_buf_cnt t) - (i + 1)"
    and fc: "filter is_write tr' = concat chunks"
    and pc: "\<forall>k < nat (tune_buf_cnt t) - (i + 1).
               if tune_skip t (tune_buf t ! (i + 1 + k)) then chunks ! k = []
               else retried_write (tune_buf t ! (i + 1 + k)) (chunks ! k)"
    by blast
  have e: "tune_set_loop env t i tr = Inr (tr @ (ws @ [?u1] @ rs @ [?u2] @ tr'))"
    using c w r rest
    by (subst tune_set_loop.simps) (simp add: usleep_range_def)
  have nu: "\<not> is_write ?u1" "\<not> is_write ?u2" by (simp_all add: is_write_def)
  have f: "filter is_write (ws @ [?u1] @ rs @ [?u2] @ tr') = concat (ws # chunks)"
    using fw fr fc nu by simp
  have n: "length (ws # chunks) = nat (tune_buf_cnt t) - i" using lc c by simp
  have p: "\<forall>k < nat (tune_buf_cnt t) - i.
             if tune_skip t (tune_buf t ! (i + k)) then (ws # chunks) ! k = []
             else retried_write (tune_buf t ! (i + k)) ((ws # chunks) ! k)"
  proof (intro allI impI)
    fix k assume k: "k < nat (tune_buf_cnt t) - i"
    show "if tune_skip t (tune_buf t ! (i + k)) then (ws # chunks) ! k = []
          else retried_write (tune_buf t ! (i + k)) ((ws # chunks) ! k)"
    proof (cases k)
      case 0
      with pw show ?thesis by simp
    next
      case (Suc k')
      with k have "k' < nat (tune_buf_cnt t) - (i + 1)" by simp
      with pc have "if tune_skip t (tune_buf t ! (i + 1 + k')) then chunks ! k' = []
               else retried_write (tune_buf t ! (i + 1 + k')) (chunks ! k')" by blast
      moreover have "i + 1 + k' = i + k" using Suc by simp
      ultimately show ?thesis using Suc by (simp only: nth_Cons_Suc)
    qed
  qed
  from e f n p show ?case by blast
qed

text \<open>
  C4. On an NXP chip in client role \<open>eusb2_repeater_tune_set\<close> goes through all entries
  of the buffer, whatever the register map answers. Its register writes are, entry by
  entry in buffer order: none for an entry (\<open>0x02\<close>, \<open>0x03\<close>), and for every other
  entry one to three writes of that entry, stopping at the first that succeeds.
\<close>

theorem tune_set_skips_host_test_mode:
  "tune_inv t \<and> \<not> is_host t \<and> repeater_type t = NXP_REPEATER
     \<longrightarrow> (\<exists>tr' chunks. eusb2_repeater_tune_set env t tr = Inr (tr @ tr')
            \<and> length chunks = nat (tune_buf_cnt t)
            \<and> filter is_write tr' = concat chunks
            \<and> (\<forall>i < nat (tune_buf_cnt t).
                  if tune_buf t ! i = (0x02, 0x03) then chunks ! i = []
                  else retried_write (tune_buf t ! i) (chunks ! i)))"
proof (intro impI, elim conjE)
  assume inv: "tune_inv t" and client: "\<not> is_host t" and nxp: "repeater_type t = NXP_REPEATER"
  have sk: "tune_skip t e = (e = (0x02, 0x03))" for e
    using client nxp by (simp add: tune_skip_def)
  from set_loop_from [OF inv, of 0 env tr]
  show "\<exists>tr' chunks. eusb2_repeater_tune_set env t tr = Inr (tr @ tr')
            \<and> length chunks = nat (tune_buf_cnt t)
            \<and> filter is_write tr' = concat chunks
            \<and> (\<forall>i < nat (tune_buf_cnt t).
                  if tune_buf t ! i = (0x02, 0x03) then chunks ! i = []
                  else retried_write (tune_buf t ! i) (chunks ! i))"
    by (simp add: eusb2_repeater_tune_set_def sk cong: if_cong)
qed

theorem tune_set_skips_host_test_mode_witness:
  "tune_inv ter_three \<and> \<not> is_host ter_three \<and> repeater_type ter_three = NXP_REPEATER
   \<and> (\<exists>tr' chunks. eusb2_repeater_tune_set (env_fail_at 3 (- 5)) ter_three [] = Inr ([] @ tr')
            \<and> length chunks = nat (tune_buf_cnt ter_three)
            \<and> filter is_write tr' = concat chunks
            \<and> (\<forall>i < nat (tune_buf_cnt ter_three).
                  if tune_buf ter_three ! i = (0x02, 0x03) then chunks ! i = []
                  else retried_write (tune_buf ter_three ! i) (chunks ! i)))
   \<and> eusb2_repeater_tune_set (env_fail_at 3 (- 5)) ter_three []
       = Inr [(Usleep_range 1 10, (0, 0)), (Regmap_read 0x02, (0, 0)), (Usleep_range 1 2, (0, 0)),
              (Regmap_write 0x10 0x01, (- 5, 0)), (Regmap_write 0x10 0x01, (0, 0)),
              (Usleep_range 1 10, (0, 0)), (Regmap_read 0x10, (0, 0)), (Usleep_range 1 2, (0, 0)),
              (Regmap_write 0x14 0x02, (0, 0)),
              (Usleep_range 1 10, (0, 0)), (Regmap_read 0x14, (0, 0)), (Usleep_range 1 2, (0, 0))]"
proof -
  have h: "tune_inv ter_three \<and> \<not> is_host ter_three \<and> repeater_type ter_three = NXP_REPEATER"
    by (simp add: tune_inv_def ter_three_def ter_nxp_def eusb2_repeater_tune_buf_init_def
          er_kzalloc_def TUNE_BUF_COUNT_def)
  have e: "eusb2_repeater_tune_set (env_fail_at 3 (- 5)) ter_three []
       = Inr [(Usleep_range 1 10, (0, 0)), (Regmap_read 0x02, (0, 0)), (Usleep_range 1 2, (0, 0)),
              (Regmap_write 0x10 0x01, (- 5, 0)), (Regmap_write 0x10 0x01, (0, 0)),
              (Usleep_range 1 10, (0, 0)), (Regmap_read 0x10, (0, 0)), (Usleep_range 1 2, (0, 0)),
              (Regmap_write 0x14 0x02, (0, 0)),
              (Usleep_range 1 10, (0, 0)), (Regmap_read 0x14, (0, 0)), (Usleep_range 1 2, (0, 0))]"
    by code_simp
  from tune_set_skips_host_test_mode [where t = ter_three and env = "env_fail_at 3 (- 5)"
      and tr = "[]", THEN mp, OF h] h e
  show ?thesis by blast
qed

end
